theory Spec2Isabelle
  imports Complex_Main "HOL-Library.Log_Nat" "HOL-Library.Multiset" "HOL-Library.Word"
begin

section \<open>JavaScript values as they cross the API\<close>

text \<open>
  The server (\<^verbatim>\<open>server/index.js\<close>) receives request bodies that \<^verbatim>\<open>express.json()\<close> has
  already parsed, so every value it handles is a JSON value.  Objects are association lists
  in property order; characters are the 8-bit characters of \<^typ>\<open>string\<close>.  A missing property
  (\<^verbatim>\<open>undefined\<close>) is \<^term>\<open>None\<close> of type \<^typ>\<open>'a option\<close>.

  A number is an integer from \<open>-2\<^sup>5\<^sup>3\<close> up to \<open>2\<^sup>5\<^sup>3 - 1\<close>, a 54-bit word read as a signed
  number (\<^term>\<open>sint\<close>): each of them is a double, and JavaScript writes each of them as
  its decimal digits.  The other doubles (fractions, numbers written with an exponent,
  infinities) are no values of this type, and \<^verbatim>\<open>-0\<close>, which this server treats as it treats
  \<^verbatim>\<open>0\<close>, is \<open>0\<close>.
\<close>

type_synonym js_int = "54 word"

datatype json =
    JNull
  | JBool bool
  | JNum js_int
  | JStr string
  | JArr "json list"
  | JObj "(string \<times> json) list"

text \<open>Truthiness, as \<^verbatim>\<open>!x\<close> and \<^verbatim>\<open>x || y\<close> test it.\<close>

fun truthy :: "json \<Rightarrow> bool" where
  "truthy JNull = False"
| "truthy (JBool b) = b"
| "truthy (JNum n) = (n \<noteq> 0)"
| "truthy (JStr s) = (s \<noteq> [])"
| "truthy (JArr xs) = True"
| "truthy (JObj kvs) = True"

definition truthy_opt :: "json option \<Rightarrow> bool" where
  "truthy_opt v = (case v of None \<Rightarrow> False | Some x \<Rightarrow> truthy x)"

text \<open>\<^verbatim>\<open>Array.isArray(x)\<close> and \<^verbatim>\<open>typeof x\<close>.\<close>

fun isArray :: "json option \<Rightarrow> bool" where
  "isArray (Some (JArr xs)) = True"
| "isArray v = False"

datatype js_type = TUndefined | TObject | TBoolean | TNumber | TString

fun typeof :: "json option \<Rightarrow> js_type" where
  "typeof None = TUndefined"
| "typeof (Some JNull) = TObject"
| "typeof (Some (JBool b)) = TBoolean"
| "typeof (Some (JNum n)) = TNumber"
| "typeof (Some (JStr s)) = TString"
| "typeof (Some (JArr xs)) = TObject"
| "typeof (Some (JObj kvs)) = TObject"

subsection \<open>Decimal numerals\<close>

definition digit_char :: "nat \<Rightarrow> char" where
  "digit_char d = char_of (48 + d)"

definition is_digit :: "char \<Rightarrow> bool" where
  "is_digit c = (48 \<le> (of_char c :: nat) \<and> (of_char c :: nat) \<le> 57)"

definition digit_val :: "char \<Rightarrow> nat" where
  "digit_val c = of_char c - 48"

fun show_nat :: "nat \<Rightarrow> string" where
  "show_nat n = (if n < 10 then [digit_char n] else show_nat (n div 10) @ [digit_char (n mod 10)])"

declare show_nat.simps [simp del]

definition show_int :: "int \<Rightarrow> string" where
  "show_int i = (if i < 0 then CHR ''-'' # show_nat (nat (- i)) else show_nat (nat i))"

definition read_nat :: "string \<Rightarrow> nat" where
  "read_nat ds = foldl (\<lambda>acc c. 10 * acc + digit_val c) 0 ds"

subsection \<open>\<^verbatim>\<open>JSON.stringify\<close>\<close>

definition hex_char :: "nat \<Rightarrow> char" where
  "hex_char d = (if d < 10 then char_of (48 + d) else char_of (87 + d))"

text \<open>
  A string is written between double quotes; the quote, the backslash and the control
  characters are escaped, the control characters with no short form as \<^verbatim>\<open>\u00xx\<close>.
\<close>

definition escape_char :: "char \<Rightarrow> string" where
  "escape_char c =
    (if c = CHR 0x22 then [CHR 0x5C, CHR 0x22]
     else if c = CHR 0x5C then [CHR 0x5C, CHR 0x5C]
     else if c = CHR 0x08 then [CHR 0x5C, CHR ''b'']
     else if c = CHR 0x0C then [CHR 0x5C, CHR ''f'']
     else if c = CHR 0x0A then [CHR 0x5C, CHR ''n'']
     else if c = CHR 0x0D then [CHR 0x5C, CHR ''r'']
     else if c = CHR 0x09 then [CHR 0x5C, CHR ''t'']
     else if (of_char c :: nat) < 32 then
       [CHR 0x5C, CHR ''u'', CHR ''0'', CHR ''0'',
        hex_char ((of_char c :: nat) div 16), hex_char ((of_char c :: nat) mod 16)]
     else [c])"

definition quote :: "string \<Rightarrow> string" where
  "quote s = CHR 0x22 # concat (map escape_char s) @ [CHR 0x22]"

fun stringify :: "json \<Rightarrow> string"
  and stringify_elems :: "json list \<Rightarrow> string"
  and stringify_members :: "(string \<times> json) list \<Rightarrow> string"
where
  "stringify JNull = ''null''"
| "stringify (JBool b) = (if b then ''true'' else ''false'')"
| "stringify (JNum n) = show_int (sint n)"
| "stringify (JStr s) = quote s"
| "stringify (JArr xs) = CHR ''['' # stringify_elems xs @ '']''"
| "stringify (JObj kvs) = CHR ''{'' # stringify_members kvs @ ''}''"
| "stringify_elems [] = []"
| "stringify_elems [x] = stringify x"
| "stringify_elems (x # y # ys) = stringify x @ CHR '','' # stringify_elems (y # ys)"
| "stringify_members [] = []"
| "stringify_members [(k, v)] = quote k @ CHR '':'' # stringify v"
| "stringify_members ((k, v) # m # ms) =
     quote k @ CHR '':'' # stringify v @ CHR '','' # stringify_members (m # ms)"

subsection \<open>\<^verbatim>\<open>JSON.parse\<close>\<close>

text \<open>
  The outcome of parsing: the value; a \<^verbatim>\<open>SyntaxError\<close>; or \<open>Unrepresented\<close>, when the text
  holds something that has no value in this development (a number that is no \<open>js_int\<close>, a
  character above 255, an object key that is an array index and so changes the order of the
  properties, a text deeper than the fuel reaches).  About such a text nothing is stated.
\<close>

datatype 'a parsed = Parsed 'a | SyntaxError | Unrepresented

fun and_then :: "'a parsed \<Rightarrow> ('a \<Rightarrow> 'b parsed) \<Rightarrow> 'b parsed" where
  "and_then (Parsed x) f = f x"
| "and_then SyntaxError f = SyntaxError"
| "and_then Unrepresented f = Unrepresented"

definition is_ws :: "char \<Rightarrow> bool" where
  "is_ws c = (c = CHR 0x20 \<or> c = CHR 0x09 \<or> c = CHR 0x0A \<or> c = CHR 0x0D)"

definition skip_ws :: "string \<Rightarrow> string" where
  "skip_ws s = dropWhile is_ws s"

definition hex_val :: "char \<Rightarrow> nat option" where
  "hex_val c =
    (let n = (of_char c :: nat) in
     if 48 \<le> n \<and> n \<le> 57 then Some (n - 48)
     else if 97 \<le> n \<and> n \<le> 102 then Some (n - 87)
     else if 65 \<le> n \<and> n \<le> 70 then Some (n - 55)
     else None)"

definition unescape :: "char \<Rightarrow> char option" where
  "unescape e =
    (if e = CHR 0x22 then Some (CHR 0x22)
     else if e = CHR 0x5C then Some (CHR 0x5C)
     else if e = CHR ''/'' then Some (CHR ''/'')
     else if e = CHR ''b'' then Some (CHR 0x08)
     else if e = CHR ''f'' then Some (CHR 0x0C)
     else if e = CHR ''n'' then Some (CHR 0x0A)
     else if e = CHR ''r'' then Some (CHR 0x0D)
     else if e = CHR ''t'' then Some (CHR 0x09)
     else None)"

text \<open>\<^verbatim>\<open>\uXXXX\<close>: four hexadecimal digits; a code unit above 255 has no \<^typ>\<open>char\<close>.\<close>

definition unicode_escape :: "char \<Rightarrow> char \<Rightarrow> char \<Rightarrow> char \<Rightarrow> char parsed" where
  "unicode_escape a b c d =
    (case (hex_val a, hex_val b, hex_val c, hex_val d) of
       (Some x3, Some x2, Some x1, Some x0) \<Rightarrow>
         (if x3 = 0 \<and> x2 = 0 then Parsed (char_of (16 * x1 + x0)) else Unrepresented)
     | _ \<Rightarrow> SyntaxError)"

definition cons_fst :: "'a \<Rightarrow> ('a list \<times> 'b) parsed \<Rightarrow> ('a list \<times> 'b) parsed" where
  "cons_fst x r = and_then r (\<lambda>(xs, rest). Parsed (x # xs, rest))"

text \<open>The characters of a string literal after its opening quote, up to the closing one.\<close>

fun parse_chars :: "string \<Rightarrow> (string \<times> string) parsed" where
  "parse_chars [] = SyntaxError"
| "parse_chars (c # cs) =
    (if c = CHR 0x22 then Parsed ([], cs)
     else if c = CHR 0x5C then
       (case cs of
          [] \<Rightarrow> SyntaxError
        | e # cs1 \<Rightarrow>
            (if e = CHR ''u'' then
               (case cs1 of
                  a # b # x # d # cs2 \<Rightarrow>
                    (case unicode_escape a b x d of
                       Parsed ch \<Rightarrow> cons_fst ch (parse_chars cs2)
                     | SyntaxError \<Rightarrow> SyntaxError
                     | Unrepresented \<Rightarrow> Unrepresented)
                | _ \<Rightarrow> SyntaxError)
             else
               (case unescape e of
                  None \<Rightarrow> SyntaxError
                | Some ch \<Rightarrow> cons_fst ch (parse_chars cs1))))
     else if (of_char c :: nat) < 32 then SyntaxError
     else cons_fst c (parse_chars cs))"

text \<open>
  A number: an optional minus sign and decimal digits with no leading zero.  With a fraction
  or an exponent, or outside the range of \<open>js_int\<close>, it is a number that has no value here.
\<close>

definition in_js_int :: "int \<Rightarrow> bool" where
  "in_js_int n = (- (2 ^ 53) \<le> n \<and> n < 2 ^ 53)"

definition parse_number :: "string \<Rightarrow> (json \<times> string) parsed" where
  "parse_number s =
    (let neg = (s \<noteq> [] \<and> hd s = CHR ''-'');
         s1 = (if neg then tl s else s);
         ds = takeWhile is_digit s1;
         r = dropWhile is_digit s1;
         n = (if neg then - int (read_nat ds) else int (read_nat ds))
     in if ds = [] then SyntaxError
        else if 1 < length ds \<and> hd ds = CHR ''0'' then SyntaxError
        else if r \<noteq> [] \<and> (hd r = CHR ''.'' \<or> hd r = CHR ''e'' \<or> hd r = CHR ''E'') then Unrepresented
        else if in_js_int n then Parsed (JNum (word_of_int n), r)
        else Unrepresented)"

text \<open>
  Defining a property that the object already has replaces its value and keeps its place;
  a new property goes last.  A key that is an array index (\<open>array_index_key\<close>) would go
  before the other keys instead: an object text with such a key is \<open>Unrepresented\<close>.
\<close>

fun obj_put :: "(string \<times> json) list \<Rightarrow> string \<times> json \<Rightarrow> (string \<times> json) list" where
  "obj_put [] kv = [kv]"
| "obj_put ((k', v') # kvs) kv =
     (if k' = fst kv then (k', snd kv) # kvs else (k', v') # obj_put kvs kv)"

definition array_index_key :: "string \<Rightarrow> bool" where
  "array_index_key k = (k \<noteq> [] \<and> list_all is_digit k \<and> (k = ''0'' \<or> hd k \<noteq> CHR ''0''))"

definition obj_of_members :: "(string \<times> json) list \<Rightarrow> json parsed" where
  "obj_of_members ms =
    (if list_ex (\<lambda>kv. array_index_key (fst kv)) ms then Unrepresented
     else Parsed (JObj (foldl obj_put [] ms)))"

definition literal :: "string \<Rightarrow> json \<Rightarrow> string \<Rightarrow> (json \<times> string) parsed" where
  "literal w v s = (if take (length w) s = w then Parsed (v, drop (length w) s) else SyntaxError)"

text \<open>
  The recursive descent is driven by fuel, which \<open>JSON_parse\<close> supplies in proportion to
  the length of the text; every call consumes a character before it recurses.
\<close>

fun parse_value :: "nat \<Rightarrow> string \<Rightarrow> (json \<times> string) parsed"
  and parse_elems :: "nat \<Rightarrow> string \<Rightarrow> (json list \<times> string) parsed"
  and parse_members :: "nat \<Rightarrow> string \<Rightarrow> ((string \<times> json) list \<times> string) parsed"
where
  "parse_value 0 s = Unrepresented"
| "parse_value (Suc n) s =
    (case skip_ws s of
       [] \<Rightarrow> SyntaxError
     | c # cs \<Rightarrow>
        (if c = CHR ''n'' then literal ''ull'' JNull cs
         else if c = CHR ''t'' then literal ''rue'' (JBool True) cs
         else if c = CHR ''f'' then literal ''alse'' (JBool False) cs
         else if c = CHR 0x22 then
           and_then (parse_chars cs) (\<lambda>(str, r). Parsed (JStr str, r))
         else if c = CHR ''['' then
           (case skip_ws cs of
              [] \<Rightarrow> SyntaxError
            | d # ds \<Rightarrow>
               (if d = CHR '']'' then Parsed (JArr [], ds)
                else and_then (parse_elems n cs) (\<lambda>(vs, r). Parsed (JArr vs, r))))
         else if c = CHR ''{'' then
           (case skip_ws cs of
              [] \<Rightarrow> SyntaxError
            | d # ds \<Rightarrow>
               (if d = CHR ''}'' then Parsed (JObj [], ds)
                else and_then (parse_members n cs)
                       (\<lambda>(ms, r). and_then (obj_of_members ms) (\<lambda>v. Parsed (v, r)))))
         else parse_number (c # cs)))"
| "parse_elems 0 s = Unrepresented"
| "parse_elems (Suc n) s =
    and_then (parse_value n s)
      (\<lambda>(v, r).
        (case skip_ws r of
           [] \<Rightarrow> SyntaxError
         | c # cs \<Rightarrow>
            (if c = CHR '','' then cons_fst v (parse_elems n cs)
             else if c = CHR '']'' then Parsed ([v], cs)
             else SyntaxError)))"
| "parse_members 0 s = Unrepresented"
| "parse_members (Suc n) s =
    (case skip_ws s of
       [] \<Rightarrow> SyntaxError
     | q # s1 \<Rightarrow>
        (if q \<noteq> CHR 0x22 then SyntaxError
         else and_then (parse_chars s1)
           (\<lambda>(k, s2).
             (case skip_ws s2 of
                [] \<Rightarrow> SyntaxError
              | colon # s3 \<Rightarrow>
                 (if colon \<noteq> CHR '':'' then SyntaxError
                  else and_then (parse_value n s3)
                    (\<lambda>(v, s4).
                      (case skip_ws s4 of
                         [] \<Rightarrow> SyntaxError
                       | c # cs \<Rightarrow>
                          (if c = CHR '','' then cons_fst (k, v) (parse_members n cs)
                           else if c = CHR ''}'' then Parsed ([(k, v)], cs)
                           else SyntaxError))))))))"

definition JSON_parse :: "string \<Rightarrow> json parsed" where
  "JSON_parse s =
    and_then (parse_value (2 * length s + 1) s)
      (\<lambda>(v, r). if skip_ws r = [] then Parsed v else SyntaxError)"

text \<open>
  The values the server itself handles come out of \<^verbatim>\<open>JSON.parse\<close> (the body parser), so
  an object has every key once, in the order of \<open>obj_put\<close>, and no key that is an array
  index: this is \<open>wf_json\<close>.
\<close>

fun wf_json :: "json \<Rightarrow> bool" where
  "wf_json (JArr xs) = list_all wf_json xs"
| "wf_json (JObj kvs) =
     (distinct (map fst kvs) \<and>
      list_all (\<lambda>kv. \<not> array_index_key (fst kv) \<and> wf_json (snd kv)) kvs)"
| "wf_json v = True"

subsection \<open>Property access and conversion to string\<close>

text \<open>
  The own properties of a value: the members of an object, the elements and the length of an
  array or a string (a length below \<open>2\<^sup>3\<^sup>2\<close>, as JavaScript has them).
\<close>

fun get_prop :: "json \<Rightarrow> string \<Rightarrow> json option" where
  "get_prop (JObj kvs) k = map_of kvs k"
| "get_prop (JArr xs) k =
     (if k = ''length'' then Some (JNum (of_nat (length xs)))
      else if array_index_key k \<and> read_nat k < length xs then Some (xs ! read_nat k)
      else None)"
| "get_prop (JStr s) k =
     (if k = ''length'' then Some (JNum (of_nat (length s)))
      else if array_index_key k \<and> read_nat k < length s then Some (JStr [s ! read_nat k])
      else None)"
| "get_prop v k = None"

text \<open>
  What \<^verbatim>\<open>x[k]\<close> delivers: a JSON value, or a built-in function, known by its name.  A
  property that \<open>x\<close> does not have itself is looked up in its prototype: an object parsed
  from JSON inherits from \<^verbatim>\<open>Object.prototype\<close>, an array from \<^verbatim>\<open>Array.prototype\<close> and
  through it from \<^verbatim>\<open>Object.prototype\<close>.  \<open>object_prototype\<close> lists the methods of
  \<^verbatim>\<open>Object.prototype\<close>; those of \<^verbatim>\<open>Array.prototype\<close> grow with the version of the language
  and are the parameter \<open>am\<close>.  \<^verbatim>\<open>constructor\<close> is the function \<^verbatim>\<open>Object\<close> or \<^verbatim>\<open>Array\<close>,
  and \<^verbatim>\<open>__proto__\<close> the prototype itself, which has no JSON property of its own and is
  in every use that this server makes of it (truthiness, \<^verbatim>\<open>Array.isArray\<close>, \<^verbatim>\<open>String\<close>,
  \<^verbatim>\<open>join\<close>) like \<^verbatim>\<open>{}\<close>, respectively \<^verbatim>\<open>[]\<close>.
\<close>

datatype js_value = JSON json | Builtin string

definition object_prototype :: "string list" where
  "object_prototype =
    [''__defineGetter__'', ''__defineSetter__'', ''hasOwnProperty'', ''__lookupGetter__'',
     ''__lookupSetter__'', ''isPrototypeOf'', ''propertyIsEnumerable'', ''toString'',
     ''valueOf'', ''toLocaleString'']"

fun inherited :: "string list \<Rightarrow> json \<Rightarrow> string \<Rightarrow> js_value option" where
  "inherited am (JObj kvs) k =
     (if k = ''constructor'' then Some (Builtin ''Object'')
      else if k = ''__proto__'' then Some (JSON (JObj []))
      else if k \<in> set object_prototype then Some (Builtin k)
      else None)"
| "inherited am (JArr xs) k =
     (if k = ''constructor'' then Some (Builtin ''Array'')
      else if k = ''__proto__'' then Some (JSON (JArr []))
      else if k \<in> set am \<or> k \<in> set object_prototype then Some (Builtin k)
      else None)"
| "inherited am v k = None"


text \<open>
  \<^verbatim>\<open>String(x)\<close>, which a template literal and \<^verbatim>\<open>Array.prototype.join\<close> apply: an array is
  its elements joined by a comma, and \<^verbatim>\<open>join\<close> writes \<^verbatim>\<open>null\<close> as the empty string.
\<close>

fun toString :: "json \<Rightarrow> string"
  and join :: "string \<Rightarrow> json list \<Rightarrow> string"
where
  "toString JNull = ''null''"
| "toString (JBool b) = (if b then ''true'' else ''false'')"
| "toString (JNum n) = show_int (sint n)"
| "toString (JStr s) = s"
| "toString (JArr xs) = join '','' xs"
| "toString (JObj kvs) = ''[object Object]''"
| "join sep [] = []"
| "join sep [x] = (if x = JNull then [] else toString x)"
| "join sep (x # y # ys) = (if x = JNull then [] else toString x) @ sep @ join sep (y # ys)"

text \<open>\<^verbatim>\<open>String(f)\<close> for a built-in function, and \<^verbatim>\<open>String(x)\<close> for what \<^verbatim>\<open>x[k]\<close> delivers.\<close>

definition function_text :: "string \<Rightarrow> string" where
  "function_text name = ''function '' @ name @ ''() { [native code] }''"

fun toString_opt :: "js_value option \<Rightarrow> string" where
  "toString_opt None = ''undefined''"
| "toString_opt (Some (JSON x)) = toString x"
| "toString_opt (Some (Builtin name)) = function_text name"

section \<open>The store\<close>

text \<open>
  The two tables of \<^verbatim>\<open>database.sqlite\<close>, each a list of rows in rowid (insertion) order.
  \<open>created_at\<close> and \<open>submitted_at\<close> are readings of the database clock; the JavaScript
  clock (\<^verbatim>\<open>new Date()\<close>) is a second reading, and both are numbers here, their textual
  formats left aside.  \<open>foreign_keys\<close> is the connection's \<^verbatim>\<open>PRAGMA foreign_keys\<close>
  setting, on which SQLite makes the \<^verbatim>\<open>ON DELETE CASCADE\<close> of the schema depend.
\<close>

type_synonym timestamp = nat

record form_row =
  f_id :: string
  f_title :: string
  f_description :: string
  f_fields :: string
  f_created_at :: timestamp

record response_row =
  r_id :: string
  r_form_id :: string
  r_answers :: string
  r_submitter_name :: "string option"
  r_submitter_email :: "string option"
  r_submitted_at :: timestamp

record store =
  forms :: "form_row list"
  responses :: "response_row list"
  foreign_keys :: bool

text \<open>
  \<^verbatim>\<open>new sqlite3.Database(dbPath)\<close> followed by the two \<^verbatim>\<open>CREATE TABLE IF NOT EXISTS\<close>:
  no statement of the server sets \<^verbatim>\<open>PRAGMA foreign_keys\<close>, and SQLite opens a connection
  with foreign-key enforcement off.
\<close>

definition db_open :: store where
  "db_open = \<lparr>forms = [], responses = [], foreign_keys = False\<rparr>"

text \<open>
  The ways a request fails.  \<open>OutsideModel\<close> is none of the server's: it marks a request
  that meets a value which this development does not represent (an \<open>Unrepresented\<close> text in
  the store, a property read on a number, a boolean or a string that these do not have
  themselves), and about which nothing is stated.
\<close>

datatype error = ValidationError | NotFound | StoreError | UncaughtException | OutsideModel

text \<open>
  The status the API answers with; an exception thrown inside a database callback is caught
  by nothing and no answer is sent.
\<close>

fun http_status :: "error \<Rightarrow> nat option" where
  "http_status ValidationError = Some 400"
| "http_status NotFound = Some 404"
| "http_status StoreError = Some 500"
| "http_status UncaughtException = None"
| "http_status OutsideModel = None"

text \<open>\<^verbatim>\<open>JSON.parse\<close> of a column, which throws on a syntax error.\<close>

definition parse_column :: "string \<Rightarrow> error + json" where
  "parse_column s =
    (case JSON_parse s of
       Parsed v \<Rightarrow> Inr v
     | SyntaxError \<Rightarrow> Inl UncaughtException
     | Unrepresented \<Rightarrow> Inl OutsideModel)"

section \<open>The runtime\<close>

text \<open>
  What the server takes from the platform it runs on: the order in which the database
  engine delivers the rows of an \<^verbatim>\<open>ORDER BY\<close> (below), the rendering of a timestamp in the
  server's locale, and the names of the methods of \<^verbatim>\<open>Array.prototype\<close>.
\<close>

record runtime =
  sorter :: "nat list \<Rightarrow> nat list"
  toLocaleString :: "timestamp \<Rightarrow> string"
  array_methods :: "string list"

section \<open>SQL statements\<close>

text \<open>
  \<^verbatim>\<open>ORDER BY key DESC\<close>, the only sort key of every query of the server: the engine scans
  the rows in rowid order and delivers them by decreasing key.  In which order it delivers
  rows of equal key SQLite leaves open, and no query names a second key.  The sorter of the
  runtime stands for the engine's choice: from the keys of the scanned rows it gives the
  positions of the rows in the order of delivery (a position beyond the scan is no row).
  \<open>sorter_ok\<close> is what \<^verbatim>\<open>ORDER BY\<close> promises: every scanned row once, by decreasing key.
\<close>

definition order_by_desc :: "(nat list \<Rightarrow> nat list) \<Rightarrow> ('a \<Rightarrow> nat) \<Rightarrow> 'a list \<Rightarrow> 'a list" where
  "order_by_desc ord key rows =
     map (\<lambda>i. rows ! i) (filter (\<lambda>i. i < length rows) (ord (map key rows)))"

definition sorter_ok :: "(nat list \<Rightarrow> nat list) \<Rightarrow> bool" where
  "sorter_ok ord =
    (\<forall>ks. mset (ord ks) = mset [0..<length ks] \<and> sorted_wrt (\<lambda>i j. ks ! j \<le> ks ! i) (ord ks))"

text \<open>
  Two engines that keep the promise: an insertion sort that leaves rows of equal key in the
  order of the scan, and one that delivers them in the opposite order.
\<close>

fun insert_desc :: "('a \<Rightarrow> nat) \<Rightarrow> 'a \<Rightarrow> 'a list \<Rightarrow> 'a list" where
  "insert_desc key x [] = [x]"
| "insert_desc key x (y # ys) =
     (if key y \<le> key x then x # y # ys else y # insert_desc key x ys)"

fun insert_desc_last :: "('a \<Rightarrow> nat) \<Rightarrow> 'a \<Rightarrow> 'a list \<Rightarrow> 'a list" where
  "insert_desc_last key x [] = [x]"
| "insert_desc_last key x (y # ys) =
     (if key y < key x then x # y # ys else y # insert_desc_last key x ys)"

definition stable_sorter :: "nat list \<Rightarrow> nat list" where
  "stable_sorter ks = map snd (foldr (insert_desc fst) (zip ks [0..<length ks]) [])"

definition reversing_sorter :: "nat list \<Rightarrow> nat list" where
  "reversing_sorter ks = map snd (foldr (insert_desc_last fst) (zip ks [0..<length ks]) [])"

text \<open>\<^verbatim>\<open>SELECT * FROM forms WHERE id = ?\<close> through \<^verbatim>\<open>db.get\<close>: the first matching row.\<close>

definition select_form :: "store \<Rightarrow> string \<Rightarrow> form_row option" where
  "select_form st i = find (\<lambda>row. f_id row = i) (forms st)"

text \<open>\<^verbatim>\<open>INSERT INTO forms\<close>: the primary key rejects an id that is already there.\<close>

definition insert_form :: "store \<Rightarrow> form_row \<Rightarrow> error + store" where
  "insert_form st row =
    (if f_id row \<in> set (map f_id (forms st)) then Inl StoreError
     else Inr (st\<lparr>forms := forms st @ [row]\<rparr>))"

text \<open>
  \<^verbatim>\<open>INSERT INTO responses\<close>: the primary key, and the foreign key when it is enforced.
\<close>

definition insert_response :: "store \<Rightarrow> response_row \<Rightarrow> error + store" where
  "insert_response st row =
    (if r_id row \<in> set (map r_id (responses st)) then Inl StoreError
     else if foreign_keys st \<and> r_form_id row \<notin> set (map f_id (forms st)) then Inl StoreError
     else Inr (st\<lparr>responses := responses st @ [row]\<rparr>))"

text \<open>
  \<^verbatim>\<open>UPDATE forms SET title = ?, description = ?, fields = ? WHERE id = ?\<close>, with the number
  of rows changed.
\<close>

definition update_form :: "store \<Rightarrow> string \<Rightarrow> string \<Rightarrow> string \<Rightarrow> string \<Rightarrow> store \<times> nat" where
  "update_form st i t d fs =
    (st\<lparr>forms := map (\<lambda>row. if f_id row = i
                               then row\<lparr>f_title := t, f_description := d, f_fields := fs\<rparr>
                               else row) (forms st)\<rparr>,
     length (filter (\<lambda>row. f_id row = i) (forms st)))"

text \<open>
  \<^verbatim>\<open>DELETE FROM forms WHERE id = ?\<close>, with the number of rows deleted.  The responses of a
  deleted form go with it only when foreign keys are enforced.
\<close>

definition delete_form :: "store \<Rightarrow> string \<Rightarrow> store \<times> nat" where
  "delete_form st i =
    (let n = length (filter (\<lambda>row. f_id row = i) (forms st));
         fs = filter (\<lambda>row. f_id row \<noteq> i) (forms st);
         rs = (if foreign_keys st \<and> 0 < n
               then filter (\<lambda>row. r_form_id row \<noteq> i) (responses st)
               else responses st)
     in (st\<lparr>forms := fs, responses := rs\<rparr>, n))"

text \<open>\<^verbatim>\<open>SELECT * FROM responses WHERE form_id = ? ORDER BY submitted_at DESC\<close>\<close>

definition select_responses :: "runtime \<Rightarrow> store \<Rightarrow> string \<Rightarrow> response_row list" where
  "select_responses rt st i =
    order_by_desc (sorter rt) r_submitted_at (filter (\<lambda>row. r_form_id row = i) (responses st))"

text \<open>
  \<^verbatim>\<open>SELECT r.*, f.title as form_title FROM responses r JOIN forms f ON r.form_id = f.id
  ORDER BY r.submitted_at DESC\<close>: each response with the title of each form of its
  \<open>form_id\<close>, responses in the outer loop.
\<close>

definition join_forms :: "store \<Rightarrow> (response_row \<times> string) list" where
  "join_forms st =
    concat (map (\<lambda>r. map (\<lambda>f. (r, f_title f))
                          (filter (\<lambda>f. f_id f = r_form_id r) (forms st)))
                (responses st))"

definition select_joined :: "runtime \<Rightarrow> store \<Rightarrow> (response_row \<times> string) list" where
  "select_joined rt st =
    order_by_desc (sorter rt) (\<lambda>p. r_submitted_at (fst p)) (join_forms st)"

section \<open>The API\<close>

text \<open>
  Request bodies.  \<open>title\<close>, \<open>description\<close>, \<open>submitterName\<close> and \<open>submitterEmail\<close> are
  strings when present, as the client's types declare them; \<open>fields\<close> and \<open>answers\<close> are
  any JSON value or absent.
\<close>

record form_body =
  body_title :: "string option"
  body_description :: "string option"
  body_fields :: "json option"

record response_body =
  body_answers :: "json option"
  body_submitterName :: "string option"
  body_submitterEmail :: "string option"

text \<open>
  The JSON objects sent back.  A form read from the store carries both the column
  \<open>created_at\<close> (from \<^verbatim>\<open>...row\<close>) and \<open>createdAt\<close>; a property that the answer does not
  have is \<^term>\<open>None\<close>, and so is a \<^verbatim>\<open>null\<close> submitter.
\<close>

record form_json =
  fm_id :: string
  fm_title :: string
  fm_description :: string
  fm_fields :: json
  fm_created_at :: "timestamp option"
  fm_createdAt :: "timestamp option"

record response_json =
  rs_id :: string
  rs_formId :: string
  rs_formTitle :: "string option"
  rs_answers :: json
  rs_submitterName :: "string option"
  rs_submitterEmail :: "string option"
  rs_submittedAt :: timestamp

text \<open>\<^verbatim>\<open>!s\<close> for a string that may be absent, \<^verbatim>\<open>s || ''\<close> and \<^verbatim>\<open>s || null\<close>.\<close>

definition falsy_str :: "string option \<Rightarrow> bool" where
  "falsy_str s = (s = None \<or> s = Some [])"

definition or_empty :: "string option \<Rightarrow> string" where
  "or_empty s = (case s of None \<Rightarrow> [] | Some x \<Rightarrow> x)"

definition or_null :: "string option \<Rightarrow> string option" where
  "or_null s = (if falsy_str s then None else s)"

text \<open>\<^verbatim>\<open>rows.map(f)\<close> where \<open>f\<close> may throw: the first exception ends the map.\<close>

fun map_rows :: "('a \<Rightarrow> error + 'b) \<Rightarrow> 'a list \<Rightarrow> error + 'b list" where
  "map_rows f [] = Inr []"
| "map_rows f (x # xs) =
     (case f x of
        Inl e \<Rightarrow> Inl e
      | Inr y \<Rightarrow> (case map_rows f xs of Inl e \<Rightarrow> Inl e | Inr ys \<Rightarrow> Inr (y # ys)))"

definition form_of_row :: "form_row \<Rightarrow> error + form_json" where
  "form_of_row row =
    (case parse_column (f_fields row) of
       Inl e \<Rightarrow> Inl e
     | Inr fs \<Rightarrow>
         Inr \<lparr>fm_id = f_id row, fm_title = f_title row, fm_description = f_description row,
              fm_fields = fs, fm_created_at = Some (f_created_at row),
              fm_createdAt = Some (f_created_at row)\<rparr>)"

definition response_of_row :: "response_row \<Rightarrow> error + response_json" where
  "response_of_row row =
    (case parse_column (r_answers row) of
       Inl e \<Rightarrow> Inl e
     | Inr a \<Rightarrow>
         Inr \<lparr>rs_id = r_id row, rs_formId = r_form_id row, rs_formTitle = None,
              rs_answers = a, rs_submitterName = r_submitter_name row,
              rs_submitterEmail = r_submitter_email row,
              rs_submittedAt = r_submitted_at row\<rparr>)"

definition response_of_joined :: "response_row \<times> string \<Rightarrow> error + response_json" where
  "response_of_joined p =
    (case parse_column (r_answers (fst p)) of
       Inl e \<Rightarrow> Inl e
     | Inr a \<Rightarrow>
         Inr \<lparr>rs_id = r_id (fst p), rs_formId = r_form_id (fst p), rs_formTitle = Some (snd p),
              rs_answers = a, rs_submitterName = r_submitter_name (fst p),
              rs_submitterEmail = r_submitter_email (fst p),
              rs_submittedAt = r_submitted_at (fst p)\<rparr>)"

subsection \<open>Forms\<close>


text \<open>\<^verbatim>\<open>GET /api/forms/:id\<close>\<close>

definition getForm :: "store \<Rightarrow> string \<Rightarrow> error + form_json" where
  "getForm st i =
    (case select_form st i of
       None \<Rightarrow> Inl NotFound
     | Some row \<Rightarrow> form_of_row row)"

text \<open>The check shared by \<^verbatim>\<open>POST /api/forms\<close> and \<^verbatim>\<open>PUT /api/forms/:id\<close>.\<close>

definition invalid_form :: "form_body \<Rightarrow> bool" where
  "invalid_form body =
    (falsy_str (body_title body) \<or> \<not> truthy_opt (body_fields body) \<or> \<not> isArray (body_fields body))"

text \<open>
  \<^verbatim>\<open>POST /api/forms\<close>.  \<open>newId\<close> is what \<^verbatim>\<open>uuidv4()\<close> returns, \<open>now\<close> the database clock
  (\<^verbatim>\<open>CURRENT_TIMESTAMP\<close>) and \<open>jsnow\<close> the JavaScript clock.
\<close>

definition createForm ::
  "store \<Rightarrow> string \<Rightarrow> timestamp \<Rightarrow> timestamp \<Rightarrow> form_body \<Rightarrow> error + store \<times> form_json" where
  "createForm st newId now jsnow body =
    (if invalid_form body then Inl ValidationError
     else case body_fields body of
       None \<Rightarrow> Inl ValidationError
     | Some fs \<Rightarrow>
        (let fieldsJson = stringify fs in
         case insert_form st \<lparr>f_id = newId, f_title = or_empty (body_title body),
                 f_description = or_empty (body_description body), f_fields = fieldsJson,
                 f_created_at = now\<rparr> of
           Inl e \<Rightarrow> Inl e
         | Inr st' \<Rightarrow>
             Inr (st', \<lparr>fm_id = newId, fm_title = or_empty (body_title body),
                        fm_description = or_empty (body_description body), fm_fields = fs,
                        fm_created_at = None, fm_createdAt = Some jsnow\<rparr>)))"

text \<open>\<^verbatim>\<open>PUT /api/forms/:id\<close>\<close>

definition updateForm :: "store \<Rightarrow> string \<Rightarrow> form_body \<Rightarrow> error + store \<times> form_json" where
  "updateForm st i body =
    (if invalid_form body then Inl ValidationError
     else case body_fields body of
       None \<Rightarrow> Inl ValidationError
     | Some fs \<Rightarrow>
        (let fieldsJson = stringify fs;
             (st', changes) = update_form st i (or_empty (body_title body))
                                (or_empty (body_description body)) fieldsJson
         in if changes = 0 then Inl NotFound
            else Inr (st', \<lparr>fm_id = i, fm_title = or_empty (body_title body),
                            fm_description = or_empty (body_description body), fm_fields = fs,
                            fm_created_at = None, fm_createdAt = None\<rparr>)))"

text \<open>\<^verbatim>\<open>DELETE /api/forms/:id\<close>\<close>

definition deleteForm :: "store \<Rightarrow> string \<Rightarrow> error + store" where
  "deleteForm st i =
    (let (st', changes) = delete_form st i
     in if changes = 0 then Inl NotFound else Inr st')"

subsection \<open>Responses\<close>

text \<open>\<^verbatim>\<open>GET /api/forms/:id/responses\<close>\<close>

definition listResponsesForForm :: "runtime \<Rightarrow> store \<Rightarrow> string \<Rightarrow> error + response_json list" where
  "listResponsesForForm rt st i = map_rows response_of_row (select_responses rt st i)"

text \<open>\<^verbatim>\<open>GET /api/responses\<close>\<close>

definition listAllResponses :: "runtime \<Rightarrow> store \<Rightarrow> error + response_json list" where
  "listAllResponses rt st = map_rows response_of_joined (select_joined rt st)"

text \<open>
  \<^verbatim>\<open>POST /api/forms/:id/responses\<close>.  The handler validates the body and issues the
  \<^verbatim>\<open>SELECT\<close>; the \<^verbatim>\<open>INSERT\<close> is issued from the callback of the \<^verbatim>\<open>SELECT\<close>, so the
  statements of other requests can run in between.  \<open>st\<close> is the store that the
  \<^verbatim>\<open>SELECT\<close> reads and \<open>st'\<close> the store that the \<^verbatim>\<open>INSERT\<close> writes to; they are the same
  when no other request came in between.
\<close>

definition submitResponse ::
  "store \<Rightarrow> store \<Rightarrow> string \<Rightarrow> timestamp \<Rightarrow> timestamp \<Rightarrow> string \<Rightarrow> response_body
    \<Rightarrow> error + store \<times> response_json" where
  "submitResponse st st' responseId now jsnow formId body =
    (if \<not> truthy_opt (body_answers body) \<or> typeof (body_answers body) \<noteq> TObject then Inl ValidationError
     else case body_answers body of
       None \<Rightarrow> Inl ValidationError
     | Some a \<Rightarrow>
        (case select_form st formId of
           None \<Rightarrow> Inl NotFound
         | Some row \<Rightarrow>
            (let answersJson = stringify a in
             case insert_response st' \<lparr>r_id = responseId, r_form_id = formId,
                     r_answers = answersJson,
                     r_submitter_name = or_null (body_submitterName body),
                     r_submitter_email = or_null (body_submitterEmail body),
                     r_submitted_at = now\<rparr> of
               Inl e \<Rightarrow> Inl e
             | Inr st'' \<Rightarrow>
                 Inr (st'', \<lparr>rs_id = responseId, rs_formId = formId, rs_formTitle = None,
                            rs_answers = a, rs_submitterName = body_submitterName body,
                            rs_submitterEmail = body_submitterEmail body,
                            rs_submittedAt = jsnow\<rparr>))))"

subsection \<open>Dashboard statistics\<close>

text \<open>
  JavaScript numbers are IEEE 754 doubles.  \<open>to_double\<close> rounds a rational to the nearest
  number with a 53-bit significand, ties to the even significand; the exponent range is left
  unbounded, which no count of rows reaches.  A double is represented by its exact value.
\<close>

definition pow2 :: "int \<Rightarrow> rat" where
  "pow2 e = (if 0 \<le> e then 2 ^ nat e else 1 / 2 ^ nat (- e))"

definition floor_log2 :: "rat \<Rightarrow> int" where
  "floor_log2 x =
    (let (p, q) = quotient_of x;
         d = bitlen p - bitlen q
     in if pow2 d \<le> x then d else d - 1)"

definition round_half_even :: "rat \<Rightarrow> int" where
  "round_half_even z =
    (let f = \<lfloor>z\<rfloor>; d = z - of_int f
     in if d < 1 / 2 then f
        else if 1 / 2 < d then f + 1
        else if even f then f else f + 1)"

definition to_double :: "rat \<Rightarrow> rat" where
  "to_double x =
    (if x = 0 then 0
     else let a = \<bar>x\<bar>;
              e = floor_log2 a - 52;
              m = round_half_even (a / pow2 e)
          in sgn x * of_int m * pow2 e)"

text \<open>\<^verbatim>\<open>a / b\<close> on two row counts.\<close>

definition js_div :: "nat \<Rightarrow> nat \<Rightarrow> rat" where
  "js_div a b = to_double (to_double (of_nat a) / to_double (of_nat b))"

text \<open>
  \<^verbatim>\<open>x.toFixed(1)\<close> for \<open>0 \<le> x < 10\<^sup>2\<^sup>1\<close>: the integer \<open>n\<close> for which \<open>n / 10 - x\<close> is
  closest to zero, the larger one of two, written with its last digit after the point.
\<close>

definition toFixed1 :: "rat \<Rightarrow> string" where
  "toFixed1 x =
    (let n = nat \<lfloor>x * 10 + 1 / 2\<rfloor>
     in show_nat (n div 10) @ ''.'' @ show_nat (n mod 10))"

record stats =
  totalForms :: nat
  totalResponses :: nat
  avgResponsesPerForm :: string
  recentResponses :: "response_json list"

text \<open>
  \<^verbatim>\<open>GET /api/dashboard/stats\<close>: two counts, the five newest joined responses, and the
  average once all three queries have answered.  The handler issues the three queries
  together.
\<close>

definition computeDashboardStats :: "runtime \<Rightarrow> store \<Rightarrow> error + stats" where
  "computeDashboardStats rt st =
    (case map_rows response_of_joined (take 5 (select_joined rt st)) of
       Inl e \<Rightarrow> Inl e
     | Inr recent \<Rightarrow>
         Inr \<lparr>totalForms = length (forms st),
              totalResponses = length (responses st),
              avgResponsesPerForm =
                (if 0 < length (forms st)
                 then toFixed1 (js_div (length (responses st)) (length (forms st)))
                 else ''0''),
              recentResponses = recent\<rparr>)"

subsection \<open>CSV export\<close>

text \<open>
  \<^verbatim>\<open>x[k]\<close>: a TypeError when \<open>x\<close> is \<^verbatim>\<open>null\<close>; else the own property \<open>k\<close> of \<open>x\<close>, else the
  inherited one.  What a number, a boolean or a string inherits is not represented.
\<close>

definition get_member :: "runtime \<Rightarrow> json \<Rightarrow> string \<Rightarrow> error + js_value option" where
  "get_member rt x k =
    (case x of
       JNull \<Rightarrow> Inl UncaughtException
     | JObj kvs \<Rightarrow>
         (case get_prop x k of
            Some v \<Rightarrow> Inr (Some (JSON v))
          | None \<Rightarrow> Inr (inherited (array_methods rt) x k))
     | JArr xs \<Rightarrow>
         (case get_prop x k of
            Some v \<Rightarrow> Inr (Some (JSON v))
          | None \<Rightarrow> Inr (inherited (array_methods rt) x k))
     | _ \<Rightarrow>
         (case get_prop x k of
            Some v \<Rightarrow> Inr (Some (JSON v))
          | None \<Rightarrow> Inl OutsideModel))"

text \<open>
  The cell of one field: \<^verbatim>\<open>answer.join(', ')\<close> for an array, \<^verbatim>\<open>answer || ''\<close> otherwise,
  as the template literal \<^verbatim>\<open>`"${cell}"`\<close> then writes it.  A function is truthy.
\<close>

fun cell_of_answer :: "js_value option \<Rightarrow> string" where
  "cell_of_answer None = []"
| "cell_of_answer (Some (JSON (JArr xs))) = join '', '' xs"
| "cell_of_answer (Some (JSON v)) = (if truthy v then toString v else [])"
| "cell_of_answer (Some (Builtin name)) = function_text name"

definition field_cell :: "runtime \<Rightarrow> json \<Rightarrow> json \<Rightarrow> error + string" where
  "field_cell rt answers field =
    (case get_member rt field ''id'' of
       Inl e \<Rightarrow> Inl e
     | Inr fid \<Rightarrow>
        (case get_member rt answers (toString_opt fid) of
           Inl e \<Rightarrow> Inl e
         | Inr answer \<Rightarrow> Inr (cell_of_answer answer)))"

definition export_row :: "runtime \<Rightarrow> json list \<Rightarrow> response_row \<Rightarrow> error + string list" where
  "export_row rt formData response =
    (case parse_column (r_answers response) of
       Inl e \<Rightarrow> Inl e
     | Inr answers \<Rightarrow>
        (case map_rows (field_cell rt answers) formData of
           Inl e \<Rightarrow> Inl e
         | Inr cells \<Rightarrow>
             Inr ([toLocaleString rt (r_submitted_at response),
                   or_empty (r_submitter_name response),
                   or_empty (r_submitter_email response)] @ cells)))"

fun join_strings :: "string \<Rightarrow> string list \<Rightarrow> string" where
  "join_strings sep [] = []"
| "join_strings sep [x] = x"
| "join_strings sep (x # y # ys) = x @ sep @ join_strings sep (y # ys)"

definition quote_cell :: "string \<Rightarrow> string" where
  "quote_cell cell = CHR 0x22 # cell @ [CHR 0x22]"

definition csv_content :: "string list list \<Rightarrow> string" where
  "csv_content rows =
    join_strings [CHR 0x0A] (map (\<lambda>row. join_strings '','' (map quote_cell row)) rows)"

definition header_label :: "runtime \<Rightarrow> json \<Rightarrow> error + string" where
  "header_label rt f =
    (case get_member rt f ''label'' of Inl e \<Rightarrow> Inl e | Inr l \<Rightarrow> Inr (toString_opt l))"

text \<open>
  \<^verbatim>\<open>GET /api/forms/:id/export\<close>.  The query for the responses is issued from the callback
  of the query for the form: \<open>st\<close> is the store that the first reads, \<open>st'\<close> the store that
  the second reads, the same when no other request came in between.  \<^verbatim>\<open>formData.map\<close> is
  a function only when \<open>formData\<close> is an array.
\<close>

definition exportResponsesAsCsv :: "runtime \<Rightarrow> store \<Rightarrow> store \<Rightarrow> string \<Rightarrow> error + string" where
  "exportResponsesAsCsv rt st st' i =
    (case select_form st i of
       None \<Rightarrow> Inl NotFound
     | Some form \<Rightarrow>
        (let responses = select_responses rt st' i in
         case parse_column (f_fields form) of
           Inl e \<Rightarrow> Inl e
         | Inr (JArr formData) \<Rightarrow>
             (case map_rows (header_label rt) formData of
                Inl e \<Rightarrow> Inl e
              | Inr labels \<Rightarrow>
                 (let headers = [''Submitted At'', ''Name'', ''Email''] @ labels in
                  case map_rows (export_row rt formData) responses of
                    Inl e \<Rightarrow> Inl e
                  | Inr rows \<Rightarrow> Inr (csv_content (headers # rows))))
         | Inr _ \<Rightarrow> Inl UncaughtException))"

section \<open>The data model of the specification\<close>

text \<open>
  The typed view of fields and answers (\<^verbatim>\<open>FormField\<close> of the client's types), with the
  JSON objects that stand for them.
\<close>

datatype field_type = Text | Email | Textarea | Select | Radio | Checkbox | Number

fun field_type_name :: "field_type \<Rightarrow> string" where
  "field_type_name Text = ''text''"
| "field_type_name Email = ''email''"
| "field_type_name Textarea = ''textarea''"
| "field_type_name Select = ''select''"
| "field_type_name Radio = ''radio''"
| "field_type_name Checkbox = ''checkbox''"
| "field_type_name Number = ''number''"

record form_field =
  ff_id :: string
  ff_type :: field_type
  ff_label :: string
  ff_required :: bool
  ff_options :: "string list option"
  ff_placeholder :: "string option"

definition field_json :: "form_field \<Rightarrow> json" where
  "field_json f =
    JObj ([(''id'', JStr (ff_id f)), (''type'', JStr (field_type_name (ff_type f))),
           (''label'', JStr (ff_label f)), (''required'', JBool (ff_required f))]
          @ (case ff_options f of None \<Rightarrow> [] | Some os \<Rightarrow> [(''options'', JArr (map JStr os))])
          @ (case ff_placeholder f of None \<Rightarrow> [] | Some p \<Rightarrow> [(''placeholder'', JStr p)]))"

datatype answer = Scalar string | Multi "string list"







text \<open>
  The average in the specification's words: the exact quotient rounded to one decimal place
  (a half rounds up), as a string; \<^verbatim>\<open>"0"\<close> when there is no form.
\<close>

definition spec_avgResponsesPerForm :: "nat \<Rightarrow> nat \<Rightarrow> string" where
  "spec_avgResponsesPerForm r f =
    (if f = 0 then ''0''
     else let n = nat \<lfloor>(of_nat r / of_nat f :: rat) * 10 + 1 / 2\<rfloor>
          in show_nat (n div 10) @ ''.'' @ show_nat (n mod 10))"

section \<open>Notions used in the proofs\<close>

text \<open>
  What may follow a value inside a JSON text, and the characters a value may start with.
\<close>

definition delim :: "string \<Rightarrow> bool" where
  "delim r = (case r of [] \<Rightarrow> True | c # _ \<Rightarrow> c = CHR '','' \<or> c = CHR '']'' \<or> c = CHR ''}'')"

definition value_start :: "char \<Rightarrow> bool" where
  "value_start c = (c = CHR ''n'' \<or> c = CHR ''t'' \<or> c = CHR ''f'' \<or> c = CHR 0x22 \<or>
     c = CHR ''['' \<or> c = CHR ''{'' \<or> c = CHR ''-'' \<or> is_digit c)"

section \<open>Example data\<close>

text \<open>
  Two runtimes: the methods of \<^verbatim>\<open>Array.prototype\<close> as ECMAScript 2023 has them, a locale
  that renders the two timestamps of the export example, and either engine.
\<close>

definition es2023_array_methods :: "string list" where
  "es2023_array_methods =
    [''at'', ''concat'', ''copyWithin'', ''entries'', ''every'', ''fill'', ''filter'', ''find'',
     ''findIndex'', ''findLast'', ''findLastIndex'', ''flat'', ''flatMap'', ''forEach'',
     ''includes'', ''indexOf'', ''join'', ''keys'', ''lastIndexOf'', ''map'', ''pop'', ''push'',
     ''reduce'', ''reduceRight'', ''reverse'', ''shift'', ''slice'', ''some'', ''sort'',
     ''splice'', ''toReversed'', ''toSorted'', ''toSpliced'', ''unshift'', ''values'', ''with'']"

definition example_locale :: "timestamp \<Rightarrow> string" where
  "example_locale t = (if t = 300 then ''1/1/2026, 10:00:00 AM'' else ''1/2/2026, 9:30:00 AM'')"

definition example_runtime :: runtime where
  "example_runtime =
     \<lparr>sorter = stable_sorter, toLocaleString = example_locale,
      array_methods = es2023_array_methods\<rparr>"

definition reversing_runtime :: runtime where
  "reversing_runtime =
     \<lparr>sorter = reversing_sorter, toLocaleString = example_locale,
      array_methods = es2023_array_methods\<rparr>"

text \<open>One field of every type, with and without options and placeholder.\<close>

definition sample_fields :: "form_field list" where
  "sample_fields =
    [\<lparr>ff_id = ''name'', ff_type = Text, ff_label = ''Name'', ff_required = True,
      ff_options = None, ff_placeholder = Some ''Your name''\<rparr>,
     \<lparr>ff_id = ''mail'', ff_type = Email, ff_label = ''E-mail'', ff_required = True,
      ff_options = None, ff_placeholder = None\<rparr>,
     \<lparr>ff_id = ''why'', ff_type = Textarea, ff_label = ''Why us?'', ff_required = False,
      ff_options = None, ff_placeholder = Some []\<rparr>,
     \<lparr>ff_id = ''level'', ff_type = Select, ff_label = ''Level'', ff_required = False,
      ff_options = Some [''low'', ''high''], ff_placeholder = None\<rparr>,
     \<lparr>ff_id = ''colour'', ff_type = Radio, ff_label = ''Colour'', ff_required = False,
      ff_options = Some [''red''], ff_placeholder = None\<rparr>,
     \<lparr>ff_id = ''tags'', ff_type = Checkbox, ff_label = ''Tags'', ff_required = False,
      ff_options = Some [''a'', ''b''], ff_placeholder = None\<rparr>,
     \<lparr>ff_id = ''age'', ff_type = Number, ff_label = ''Age'', ff_required = False,
      ff_options = None, ff_placeholder = None\<rparr>]"

text \<open>
  The fields of the specification's CSV example, and a store with three forms, two of them
  created in the same second, and four responses, two of them submitted in the same second.
\<close>

definition example_fields :: json where
  "example_fields =
     JArr [JObj [(''id'', JStr ''name''), (''label'', JStr ''Name'')],
           JObj [(''id'', JStr ''tags''), (''label'', JStr ''Tags'')]]"

definition example_store :: store where
  "example_store =
    \<lparr>forms =
       [\<lparr>f_id = ''f1'', f_title = ''Members'', f_description = [],
          f_fields = stringify example_fields, f_created_at = 100\<rparr>,
        \<lparr>f_id = ''f2'', f_title = ''Events'', f_description = ''2026'',
          f_fields = stringify (JArr []), f_created_at = 100\<rparr>,
        \<lparr>f_id = ''f3'', f_title = ''Survey'', f_description = [],
          f_fields = stringify (JArr []), f_created_at = 200\<rparr>],
     responses =
       [\<lparr>r_id = ''r1'', r_form_id = ''f1'',
          r_answers = stringify (JObj [(''name'', JStr ''Alice''),
                                       (''tags'', JArr [JStr ''a'', JStr ''b''])]),
          r_submitter_name = Some ''Alice'', r_submitter_email = None, r_submitted_at = 300\<rparr>,
        \<lparr>r_id = ''r2'', r_form_id = ''f1'',
          r_answers = stringify (JObj [(''name'', JStr ''Bob'')]),
          r_submitter_name = None, r_submitter_email = Some ''bob@example.org'',
          r_submitted_at = 300\<rparr>,
        \<lparr>r_id = ''r3'', r_form_id = ''f2'', r_answers = stringify (JObj []),
          r_submitter_name = None, r_submitter_email = None, r_submitted_at = 350\<rparr>,
        \<lparr>r_id = ''r4'', r_form_id = ''f1'', r_answers = stringify (JArr []),
          r_submitter_name = None, r_submitter_email = None, r_submitted_at = 400\<rparr>],
     foreign_keys = False\<rparr>"

text \<open>A submission to the form \<^verbatim>\<open>f2\<close> whose submitter name is the empty string.\<close>

definition blank_name_body :: response_body where
  "blank_name_body =
     \<lparr>body_answers = Some (JObj []), body_submitterName = Some [], body_submitterEmail = None\<rparr>"

definition blank_name_submission :: "error + store \<times> response_json" where
  "blank_name_submission =
     submitResponse example_store example_store ''r9'' 500 500 ''f2'' blank_name_body"

text \<open>
  The same submission when the form \<^verbatim>\<open>f2\<close> is deleted after the handler's \<^verbatim>\<open>SELECT\<close> and
  before its \<^verbatim>\<open>INSERT\<close>.
\<close>

definition store_without_f2 :: store where
  "store_without_f2 =
     example_store\<lparr>forms := filter (\<lambda>row. f_id row \<noteq> ''f2'') (forms example_store)\<rparr>"

definition late_submission :: "error + store \<times> response_json" where
  "late_submission =
     submitResponse example_store store_without_f2 ''r9'' 500 500 ''f2'' blank_name_body"

text \<open>An update of the form \<^verbatim>\<open>f1\<close> that changes its title.\<close>

definition retitled_form :: "error + store \<times> form_json" where
  "retitled_form =
     updateForm example_store ''f1''
       \<lparr>body_title = Some ''Members 2027'', body_description = None,
        body_fields = Some example_fields\<rparr>"

text \<open>
  Create a form, submit three responses to it, delete it, and list the responses of the
  deleted form, starting from the store \<open>st0\<close>.
\<close>

definition answers_body :: "json \<Rightarrow> response_body" where
  "answers_body a = \<lparr>body_answers = Some a, body_submitterName = None, body_submitterEmail = None\<rparr>"

definition cascade_scenario :: "runtime \<Rightarrow> store \<Rightarrow> error + response_json list" where
  "cascade_scenario rt st0 =
    (case createForm st0 ''f1'' 100 100
            \<lparr>body_title = Some ''Members'', body_description = None,
             body_fields = Some example_fields\<rparr> of
       Inl e \<Rightarrow> Inl e
     | Inr (st1, form) \<Rightarrow>
    (case submitResponse st1 st1 ''r1'' 201 201 ''f1'' (answers_body (JObj [(''name'', JStr ''Bob'')])) of
       Inl e \<Rightarrow> Inl e
     | Inr (st2, a) \<Rightarrow>
    (case submitResponse st2 st2 ''r2'' 202 202 ''f1'' (answers_body (JObj [])) of
       Inl e \<Rightarrow> Inl e
     | Inr (st3, b) \<Rightarrow>
    (case submitResponse st3 st3 ''r3'' 203 203 ''f1'' (answers_body (JArr [])) of
       Inl e \<Rightarrow> Inl e
     | Inr (st4, c) \<Rightarrow>
    (case deleteForm st4 ''f1'' of
       Inl e \<Rightarrow> Inl e
     | Inr st5 \<Rightarrow> listResponsesForForm rt st5 ''f1'')))))"









text \<open>A store with \<open>nf\<close> forms and \<open>nr\<close> responses to the first of them.\<close>

definition count_store :: "nat \<Rightarrow> nat \<Rightarrow> store" where
  "count_store nf nr =
    \<lparr>forms = map (\<lambda>k. \<lparr>f_id = replicate (Suc k) (CHR ''f''), f_title = ''Form'',
                        f_description = [], f_fields = stringify (JArr []),
                        f_created_at = 100 + k\<rparr>) [0..<nf],
     responses = map (\<lambda>k. \<lparr>r_id = replicate (Suc k) (CHR ''r''), r_form_id = ''f'',
                           r_answers = stringify (JObj []), r_submitter_name = None,
                           r_submitter_email = None, r_submitted_at = 200 + k\<rparr>) [0..<nr],
     foreign_keys = False\<rparr>"

section \<open>The stores that the API can reach\<close>

text \<open>
  A request body as \<^verbatim>\<open>express.json()\<close> delivers it holds parsed JSON values.
  \<open>reaches st0 st\<close>: requests to the API lead from the store \<open>st0\<close> to the store \<open>st\<close>.  A
  submission reads the forms in one store and inserts into a later one.  A store is
  reachable when requests lead to it from the store as it is opened.
\<close>

definition wf_form_body :: "form_body \<Rightarrow> bool" where
  "wf_form_body body = (case body_fields body of None \<Rightarrow> True | Some v \<Rightarrow> wf_json v)"

definition wf_response_body :: "response_body \<Rightarrow> bool" where
  "wf_response_body body = (case body_answers body of None \<Rightarrow> True | Some v \<Rightarrow> wf_json v)"

inductive reaches :: "store \<Rightarrow> store \<Rightarrow> bool" where
  same: "reaches st st"
| created: "reaches st0 st \<Longrightarrow> wf_form_body body
     \<Longrightarrow> createForm st newId now jsnow body = Inr (st', out) \<Longrightarrow> reaches st0 st'"
| updated: "reaches st0 st \<Longrightarrow> wf_form_body body
     \<Longrightarrow> updateForm st i body = Inr (st', out) \<Longrightarrow> reaches st0 st'"
| deleted: "reaches st0 st \<Longrightarrow> deleteForm st i = Inr st' \<Longrightarrow> reaches st0 st'"
| submitted: "reaches st0 st1 \<Longrightarrow> reaches st1 st2 \<Longrightarrow> wf_response_body body
     \<Longrightarrow> submitResponse st1 st2 responseId now jsnow formId body = Inr (st3, res)
     \<Longrightarrow> reaches st0 st3"

definition reachable :: "store \<Rightarrow> bool" where
  "reachable st = reaches db_open st"

fun is_parsed :: "'a parsed \<Rightarrow> bool" where
  "is_parsed (Parsed v) = True"
| "is_parsed r = False"

definition store_inv :: "store \<Rightarrow> bool" where
  "store_inv st =
    (distinct (map f_id (forms st)) \<and> distinct (map r_id (responses st))
     \<and> list_all (\<lambda>row. is_parsed (JSON_parse (f_fields row))) (forms st)
     \<and> list_all (\<lambda>row. is_parsed (JSON_parse (r_answers row))) (responses st)
     \<and> \<not> foreign_keys st)"

section \<open>\<^verbatim>\<open>JSON.parse\<close> after \<^verbatim>\<open>JSON.stringify\<close>\<close>

subsection \<open>Numerals\<close>

lemma is_digit_digit_char: "d < 10 \<Longrightarrow> is_digit (digit_char d)"
  by (simp add: is_digit_def digit_char_def)

lemma digit_val_digit_char: "d < 10 \<Longrightarrow> digit_val (digit_char d) = d"
  by (simp add: digit_val_def digit_char_def)

lemma of_char_digit_char: "d < 10 \<Longrightarrow> (of_char (digit_char d) :: nat) = 48 + d"
  by (simp add: digit_char_def)

lemma digit_char_zero: "d < 10 \<Longrightarrow> 0 < d \<Longrightarrow> digit_char d \<noteq> CHR ''0''"
proof
  assume d: "d < 10" "0 < d" and eq: "digit_char d = CHR ''0''"
  from eq have "(of_char (digit_char d) :: nat) = of_char (CHR ''0'')" by simp
  with d show False by (simp add: of_char_digit_char)
qed

lemma show_nat_nonempty: "show_nat n \<noteq> []"
  by (subst show_nat.simps) simp

lemma show_nat_digits: "list_all is_digit (show_nat n)"
  by (induction n rule: show_nat.induct) (subst show_nat.simps, simp add: is_digit_digit_char)

lemma read_nat_snoc: "read_nat (ds @ [c]) = 10 * read_nat ds + digit_val c"
  by (simp add: read_nat_def)

lemma read_nat_show_nat: "read_nat (show_nat n) = n"
proof (induction n rule: show_nat.induct)
  case (1 n)
  show ?case
  proof (cases "n < 10")
    case True
    then show ?thesis
      by (subst show_nat.simps) (simp add: read_nat_def digit_val_digit_char)
  next
    case False
    with 1 show ?thesis
      by (subst show_nat.simps) (simp add: read_nat_snoc digit_val_digit_char)
  qed
qed

lemma show_nat_hd: "0 < n \<Longrightarrow> hd (show_nat n) \<noteq> CHR ''0''"
proof (induction n rule: show_nat.induct)
  case (1 n)
  show ?case
  proof (cases "n < 10")
    case True
    with 1(2) show ?thesis
      by (subst show_nat.simps) (simp add: digit_char_zero)
  next
    case False
    then have "0 < n div 10" by simp
    with 1(1) False have "hd (show_nat (n div 10)) \<noteq> CHR ''0''" by simp
    with False show ?thesis
      by (subst show_nat.simps) (simp add: show_nat_nonempty)
  qed
qed

lemma show_nat_length: "1 < length (show_nat n) \<Longrightarrow> 0 < n"
  by (cases "n = 0") (simp_all add: show_nat.simps)

lemma parse_chars_escape: "parse_chars (escape_char c @ s) = cons_fst c (parse_chars s)"
proof -
  let ?n = "of_char c :: nat"
  consider (quote) "c = CHR 0x22" | (bs) "c = CHR 0x5C"
    | (short) "c \<in> {CHR 0x08, CHR 0x0C, CHR 0x0A, CHR 0x0D, CHR 0x09}"
    | (ctl) "c \<notin> {CHR 0x22, CHR 0x5C, CHR 0x08, CHR 0x0C, CHR 0x0A, CHR 0x0D, CHR 0x09}" "?n < 32"
    | (plain) "c \<noteq> CHR 0x22" "c \<noteq> CHR 0x5C" "\<not> ?n < 32"
    by auto
  then show ?thesis
  proof cases
    case quote
    then show ?thesis by (simp add: escape_char_def unescape_def)
  next
    case bs
    then show ?thesis by (simp add: escape_char_def unescape_def)
  next
    case short
    then show ?thesis by (auto simp add: escape_char_def unescape_def)
  next
    case ctl
    have lo: "hex_val (hex_char (?n mod 16)) = Some (?n mod 16)"
      by (simp add: hex_val_def hex_char_def Let_def) arith
    from ctl(2) have "?n div 16 < 2" by simp
    then have hi: "hex_val (hex_char (?n div 16)) = Some (?n div 16)"
      by (simp add: hex_val_def hex_char_def Let_def)
    have z: "hex_val (CHR ''0'') = Some 0"
      by (simp add: hex_val_def)
    have rebuilt: "char_of (16 * (?n div 16) + ?n mod 16) = c"
      by simp
    from ctl show ?thesis
      by (simp add: escape_char_def unicode_escape_def z hi lo rebuilt)
  next
    case plain
    then have "escape_char c = [c]"
      by (auto simp add: escape_char_def)
    with plain show ?thesis by simp
  qed
qed

lemma parse_chars_quote:
  "parse_chars (concat (map escape_char s) @ CHR 0x22 # rest) = Parsed (s, rest)"
  by (induction s) (simp_all add: parse_chars_escape cons_fst_def)

lemma delim_not_digit: "delim r \<Longrightarrow> takeWhile is_digit r = [] \<and> dropWhile is_digit r = r"
  by (cases r) (auto simp: delim_def is_digit_def)

lemma delim_skip_ws: "delim r \<Longrightarrow> skip_ws r = r"
  by (cases r) (auto simp: delim_def skip_ws_def is_ws_def)

lemma digits_then_delim:
  assumes "delim r"
  shows "takeWhile is_digit (show_nat m @ r) = show_nat m"
    and "dropWhile is_digit (show_nat m @ r) = r"
proof -
  have all: "\<And>x. x \<in> set (show_nat m) \<Longrightarrow> is_digit x"
    using show_nat_digits [of m] by (simp add: list_all_iff)
  show "takeWhile is_digit (show_nat m @ r) = show_nat m"
    using all assms by (simp add: takeWhile_append2 delim_not_digit)
  show "dropWhile is_digit (show_nat m @ r) = r"
    using all assms by (simp add: dropWhile_append2 delim_not_digit)
qed

lemma show_nat_hd_digit: "is_digit (hd (show_nat m))"
  using show_nat_digits [of m] show_nat_nonempty [of m]
  by (cases "show_nat m") (simp_all)

lemma show_nat_not_minus: "hd (show_nat m @ r) \<noteq> CHR ''-''"
  using show_nat_hd_digit [of m] show_nat_nonempty [of m]
  by (auto simp: is_digit_def)

lemma show_nat_no_leading_zero: "\<not> (1 < length (show_nat m) \<and> hd (show_nat m) = CHR ''0'')"
  using show_nat_hd show_nat_length by blast

lemma parse_number_show_int:
  assumes "delim r" and "in_js_int i"
  shows "parse_number (show_int i @ r) = Parsed (JNum (word_of_int i), r)"
proof (cases "i < 0")
  case True
  have d: "\<not> (r \<noteq> [] \<and> (hd r = CHR ''.'' \<or> hd r = CHR ''e'' \<or> hd r = CHR ''E''))"
    using assms(1) by (cases r) (auto simp: delim_def)
  from True show ?thesis
    using d show_nat_no_leading_zero [of "nat (- i)"] assms(2)
    by (simp add: parse_number_def show_int_def Let_def digits_then_delim [OF assms(1)]
        show_nat_nonempty read_nat_show_nat)
next
  case False
  have d: "\<not> (r \<noteq> [] \<and> (hd r = CHR ''.'' \<or> hd r = CHR ''e'' \<or> hd r = CHR ''E''))"
    using assms(1) by (cases r) (auto simp: delim_def)
  from False show ?thesis
    using d show_nat_no_leading_zero [of "nat i"] show_nat_not_minus [of "nat i" r] assms(2)
    by (simp add: parse_number_def show_int_def Let_def digits_then_delim [OF assms(1)]
        show_nat_nonempty read_nat_show_nat)
qed

lemma in_js_int_sint: "in_js_int (sint (n :: js_int))"
  using sint_ge [of n] sint_lt [of n] by (simp add: in_js_int_def)

lemma parse_number_js_int:
  "delim r \<Longrightarrow> parse_number (show_int (sint (n :: js_int)) @ r) = Parsed (JNum n, r)"
  using parse_number_show_int [of r "sint n"] by (simp add: in_js_int_sint)

subsection \<open>Objects and the start of a value\<close>

lemma obj_put_fresh: "fst kv \<notin> fst ` set kvs \<Longrightarrow> obj_put kvs kv = kvs @ [kv]"
  by (induction kvs) auto

lemma foldl_obj_put_distinct:
  "distinct (map fst (acc @ ms)) \<Longrightarrow> foldl obj_put acc ms = acc @ ms"
proof (induction ms arbitrary: acc)
  case Nil
  then show ?case by simp
next
  case (Cons m ms)
  from Cons.prems have "fst m \<notin> fst ` set acc" by auto
  then have "obj_put acc m = acc @ [m]" by (rule obj_put_fresh)
  moreover from Cons.prems have "distinct (map fst ((acc @ [m]) @ ms))" by simp
  ultimately show ?case using Cons.IH [of "acc @ [m]"] by simp
qed

lemma obj_of_members_distinct:
  "distinct (map fst ms) \<Longrightarrow> list_all (\<lambda>kv. \<not> array_index_key (fst kv)) ms
     \<Longrightarrow> obj_of_members ms = Parsed (JObj ms)"
  using foldl_obj_put_distinct [of "[]" ms]
  by (simp add: obj_of_members_def list_all_iff list_ex_iff)

lemma show_int_start: "\<exists>c cs. show_int i = c # cs \<and> (c = CHR ''-'' \<or> is_digit c)"
proof (cases "i < 0")
  case True
  then show ?thesis by (simp add: show_int_def)
next
  case False
  obtain c cs where "show_nat (nat i) = c # cs"
    using show_nat_nonempty [of "nat i"] by (cases "show_nat (nat i)") auto
  moreover from this have "is_digit c" using show_nat_hd_digit [of "nat i"] by simp
  ultimately show ?thesis using False by (simp add: show_int_def)
qed

lemma stringify_start: "\<exists>c cs. stringify v = c # cs \<and> value_start c"
proof (cases v)
  case (JNum i)
  then show ?thesis using show_int_start [of "sint i"] by (auto simp: value_start_def)
qed (auto simp: value_start_def quote_def)

lemma value_start_skip_ws: "value_start c \<Longrightarrow> skip_ws (c # cs) = c # cs"
  by (auto simp: value_start_def skip_ws_def is_ws_def is_digit_def)

lemma value_start_not_close: "value_start c \<Longrightarrow> c \<noteq> CHR '']'' \<and> c \<noteq> CHR ''}''"
  by (auto simp: value_start_def is_digit_def)

lemma parse_value_number:
  assumes "c = CHR ''-'' \<or> is_digit c"
  shows "parse_value (Suc n) (c # cs) = parse_number (c # cs)"
proof -
  from assms have "skip_ws (c # cs) = c # cs"
    by (auto simp: skip_ws_def is_ws_def is_digit_def)
  moreover from assms have "c \<noteq> CHR ''n''" "c \<noteq> CHR ''t''" "c \<noteq> CHR ''f''" "c \<noteq> CHR 0x22"
    "c \<noteq> CHR ''[''" "c \<noteq> CHR ''{''"
    by (auto simp: is_digit_def)
  ultimately show ?thesis by simp
qed

subsection \<open>One step of the parser on a serialized value\<close>

lemma parse_value_null: "parse_value (Suc n) (''null'' @ r) = Parsed (JNull, r)"
  by (simp add: skip_ws_def is_ws_def literal_def)

lemma parse_value_true: "parse_value (Suc n) (''true'' @ r) = Parsed (JBool True, r)"
  by (simp add: skip_ws_def is_ws_def literal_def)

lemma parse_value_false: "parse_value (Suc n) (''false'' @ r) = Parsed (JBool False, r)"
  by (simp add: skip_ws_def is_ws_def literal_def)

lemma parse_value_string: "parse_value (Suc n) (quote s @ r) = Parsed (JStr s, r)"
  by (simp add: quote_def skip_ws_def is_ws_def parse_chars_quote)

lemma parse_value_array:
  assumes "xs \<noteq> []" and "parse_elems n (stringify_elems xs @ CHR '']'' # r) = Parsed (xs, r)"
  shows "parse_value (Suc n) (CHR ''['' # stringify_elems xs @ CHR '']'' # r) = Parsed (JArr xs, r)"
proof -
  obtain x ys where xs: "xs = x # ys" using assms(1) by (cases xs) auto
  obtain c cs where c: "stringify x = c # cs" "value_start c"
    using stringify_start [of x] by blast
  have "\<exists>t. stringify_elems xs @ CHR '']'' # r = c # t"
    using xs c by (cases ys) auto
  then obtain t where t: "stringify_elems xs @ CHR '']'' # r = c # t" ..
  have sk: "skip_ws (c # t) = c # t" using c(2) by (rule value_start_skip_ws)
  have nc: "c \<noteq> CHR '']''" using c(2) value_start_not_close by blast
  have sb: "skip_ws (CHR ''['' # c # t) = CHR ''['' # c # t"
    by (simp add: skip_ws_def is_ws_def)
  show ?thesis using assms(2) unfolding t
    by (simp add: sb sk nc)
qed

lemma parse_value_empty_array: "parse_value (Suc n) (CHR ''['' # CHR '']'' # r) = Parsed (JArr [], r)"
  by (simp add: skip_ws_def is_ws_def)

lemma parse_value_empty_object: "parse_value (Suc n) (CHR ''{'' # CHR ''}'' # r) = Parsed (JObj [], r)"
  by (simp add: skip_ws_def is_ws_def)

lemma quote_start: "quote k @ t = CHR 0x22 # concat (map escape_char k) @ CHR 0x22 # t"
  by (simp add: quote_def)

lemma parse_value_object:
  assumes "kvs \<noteq> []" and "distinct (map fst kvs)"
    and "list_all (\<lambda>kv. \<not> array_index_key (fst kv)) kvs"
    and "parse_members n (stringify_members kvs @ CHR ''}'' # r) = Parsed (kvs, r)"
  shows "parse_value (Suc n) (CHR ''{'' # stringify_members kvs @ CHR ''}'' # r) = Parsed (JObj kvs, r)"
proof -
  obtain k v ms where kvs: "kvs = (k, v) # ms" using assms(1) by (cases kvs) auto
  have "\<exists>t. stringify_members kvs @ CHR ''}'' # r = CHR 0x22 # t"
    using kvs by (cases ms) (auto simp: quote_def)
  then obtain t where t: "stringify_members kvs @ CHR ''}'' # r = CHR 0x22 # t" ..
  have sk: "skip_ws (CHR 0x22 # t) = CHR 0x22 # t" by (simp add: skip_ws_def is_ws_def)
  have sb: "skip_ws (CHR ''{'' # CHR 0x22 # t) = CHR ''{'' # CHR 0x22 # t"
    by (simp add: skip_ws_def is_ws_def)
  show ?thesis using assms(4) unfolding t
    by (simp add: sb sk obj_of_members_distinct [OF assms(2,3)])
qed

lemma parse_elems_step:
  assumes "parse_value n (s @ c # t) = Parsed (v, c # t)" and "c = CHR '','' \<or> c = CHR '']''"
  shows "parse_elems (Suc n) (s @ c # t) =
    (if c = CHR '','' then cons_fst v (parse_elems n t) else Parsed ([v], t))"
proof -
  have "skip_ws (c # t) = c # t" using assms(2) by (auto simp: skip_ws_def is_ws_def)
  then show ?thesis using assms by auto
qed

lemma parse_members_step:
  assumes "parse_value n (s @ c # t) = Parsed (v, c # t)" and "c = CHR '','' \<or> c = CHR ''}''"
  shows "parse_members (Suc n) (quote k @ CHR '':'' # s @ c # t) =
    (if c = CHR '','' then cons_fst (k, v) (parse_members n t) else Parsed ([(k, v)], t))"
proof -
  have 1: "skip_ws (c # t) = c # t" using assms(2) by (auto simp: skip_ws_def is_ws_def)
  have 2: "skip_ws (quote k @ CHR '':'' # s @ c # t) = quote k @ CHR '':'' # s @ c # t"
    by (simp add: quote_def skip_ws_def is_ws_def)
  have 3: "skip_ws (CHR '':'' # s @ c # t) = CHR '':'' # s @ c # t"
    by (simp add: skip_ws_def is_ws_def)
  have 4: "quote k @ CHR '':'' # s @ c # t
     = CHR 0x22 # concat (map escape_char k) @ CHR 0x22 # CHR '':'' # s @ c # t"
    by (simp add: quote_def)
  show ?thesis
    using assms 1 3 by (auto simp add: 4 skip_ws_def is_ws_def parse_chars_quote)
qed

subsection \<open>The round trip\<close>

lemma delim_cons: "delim (CHR '','' # t)" "delim (CHR '']'' # t)" "delim (CHR ''}'' # t)"
  by (simp_all add: delim_def)

lemma parse_stringify_aux:
  "wf_json v \<Longrightarrow> delim r \<Longrightarrow> 2 * length (stringify v @ r) + 1 \<le> n
     \<Longrightarrow> parse_value n (stringify v @ r) = Parsed (v, r)"
  "xs \<noteq> [] \<Longrightarrow> list_all wf_json xs
     \<Longrightarrow> 2 * length (stringify_elems xs @ CHR '']'' # r) + 2 \<le> n
     \<Longrightarrow> parse_elems n (stringify_elems xs @ CHR '']'' # r) = Parsed (xs, r)"
  "kvs \<noteq> [] \<Longrightarrow> list_all (\<lambda>kv. wf_json (snd kv)) kvs
     \<Longrightarrow> 2 * length (stringify_members kvs @ CHR ''}'' # r) + 2 \<le> n
     \<Longrightarrow> parse_members n (stringify_members kvs @ CHR ''}'' # r) = Parsed (kvs, r)"
proof (induction v and xs and kvs arbitrary: n r and n r and n r
    rule: stringify_stringify_elems_stringify_members.induct)
  case 1
  then obtain m where "n = Suc m" by (cases n) auto
  then show ?case using parse_value_null by simp
next
  case (2 b)
  then obtain m where "n = Suc m" by (cases n) auto
  then show ?case using parse_value_true parse_value_false by (cases b) simp_all
next
  case (3 i)
  then obtain m where n: "n = Suc m" by (cases n) auto
  obtain c cs where c: "show_int (sint i) = c # cs" "c = CHR ''-'' \<or> is_digit c"
    using show_int_start [of "sint i"] by blast
  have "parse_value (Suc m) (c # cs @ r) = parse_number (c # cs @ r)"
    using c(2) by (rule parse_value_number)
  then show ?case
    using parse_number_js_int [OF 3(2), of i] by (simp add: n c(1))
next
  case (4 s)
  then obtain m where "n = Suc m" by (cases n) auto
  then show ?case using parse_value_string by simp
next
  case (5 xs)
  then obtain m where n: "n = Suc m" by (cases n) auto
  show ?case
  proof (cases "xs = []")
    case True
    then show ?thesis using parse_value_empty_array by (simp add: n)
  next
    case False
    have "parse_elems m (stringify_elems xs @ CHR '']'' # r) = Parsed (xs, r)"
      using False "5.prems" by (intro "5.IH") (simp_all add: n)
    from parse_value_array [OF False this] show ?thesis by (simp add: n)
  qed
next
  case (6 kvs)
  then obtain m where n: "n = Suc m" by (cases n) auto
  show ?case
  proof (cases "kvs = []")
    case True
    then show ?thesis using parse_value_empty_object by (simp add: n)
  next
    case False
    have d: "distinct (map fst kvs)" using "6.prems" by simp
    have k: "list_all (\<lambda>kv. \<not> array_index_key (fst kv)) kvs"
      using "6.prems"(1) by (simp add: list_all_iff)
    have "list_all (\<lambda>kv. wf_json (snd kv)) kvs"
      using "6.prems"(1) by (simp add: list_all_iff)
    then have "parse_members m (stringify_members kvs @ CHR ''}'' # r) = Parsed (kvs, r)"
      using False "6.prems" by (intro "6.IH") (simp_all add: n)
    from parse_value_object [OF False d k this] show ?thesis by (simp add: n)
  qed
next
  case 7
  then show ?case by simp
next
  case (8 x)
  then obtain m where n: "n = Suc m" by (cases n) auto
  have "parse_value m (stringify x @ CHR '']'' # r) = Parsed (x, CHR '']'' # r)"
    using "8.prems" by (intro "8.IH") (simp_all add: n delim_cons)
  from parse_elems_step [OF this] show ?case by (simp add: n)
next
  case (9 x y ys)
  then obtain m where n: "n = Suc m" by (cases n) auto
  let ?t = "stringify_elems (y # ys) @ CHR '']'' # r"
  have v: "parse_value m (stringify x @ CHR '','' # ?t) = Parsed (x, CHR '','' # ?t)"
    using "9.prems" by (intro "9.IH"(1)) (simp_all add: n delim_cons)
  have e: "parse_elems m ?t = Parsed (y # ys, r)"
    using "9.prems" by (intro "9.IH"(2)) (simp_all add: n)
  from parse_elems_step [OF v] e show ?case by (simp add: n cons_fst_def)
next
  case 10
  then show ?case by simp
next
  case (11 k v)
  then obtain m where n: "n = Suc m" by (cases n) auto
  have "parse_value m (stringify v @ CHR ''}'' # r) = Parsed (v, CHR ''}'' # r)"
    using "11.prems" by (intro "11.IH") (simp_all add: n delim_cons)
  from parse_members_step [OF this, of k] show ?case by (simp add: n)
next
  case (12 k v kv ms)
  then obtain m where n: "n = Suc m" by (cases n) auto
  let ?t = "stringify_members (kv # ms) @ CHR ''}'' # r"
  have v: "parse_value m (stringify v @ CHR '','' # ?t) = Parsed (v, CHR '','' # ?t)"
    using "12.prems" by (intro "12.IH"(1)) (simp_all add: n delim_cons)
  have e: "parse_members m ?t = Parsed (kv # ms, r)"
    using "12.prems" by (intro "12.IH"(2)) (simp_all add: n)
  from parse_members_step [OF v, of k] e show ?case by (simp add: n cons_fst_def)
qed

lemma JSON_parse_stringify: "wf_json v \<Longrightarrow> JSON_parse (stringify v) = Parsed v"
  using parse_stringify_aux(1) [of v "[]" "2 * length (stringify v) + 1"]
  by (simp add: JSON_parse_def delim_def skip_ws_def)

lemma parse_column_stringify: "wf_json v \<Longrightarrow> parse_column (stringify v) = Inr v"
  by (simp add: parse_column_def JSON_parse_stringify del: stringify.simps)

section \<open>Forms\<close>

subsection \<open>Creating a form and reading it back\<close>

lemma find_snoc_fresh:
  "\<forall>y \<in> set xs. \<not> P y \<Longrightarrow> P x \<Longrightarrow> find P (xs @ [x]) = Some x"
  by (induction xs) auto

lemma select_form_inserted:
  assumes "f_id row \<notin> set (map f_id (forms st))"
  shows "select_form (st\<lparr>forms := forms st @ [row]\<rparr>) (f_id row) = Some row"
proof -
  have "\<forall>y \<in> set (forms st). \<not> f_id y = f_id row"
    using assms by (metis image_eqI set_map)
  then have "find (\<lambda>r. f_id r = f_id row) (forms st @ [row]) = Some row"
    by (rule find_snoc_fresh) simp
  then show ?thesis by (simp add: select_form_def)
qed

lemma not_index_key_letter: "\<not> is_digit c \<Longrightarrow> \<not> array_index_key (c # cs)"
  by (simp add: array_index_key_def)

lemma wf_field_json: "wf_json (field_json f)"
  by (cases "ff_options f"; cases "ff_placeholder f")
     (simp_all add: field_json_def not_index_key_letter is_digit_def list_all_iff)


lemma createForm_valid:
  assumes "body_title body = Some t" "t \<noteq> []" "body_fields body = Some (JArr F)"
    and "newId \<notin> set (map f_id (forms st))"
  shows "createForm st newId now jsnow body =
     Inr (st\<lparr>forms := forms st @ [\<lparr>f_id = newId, f_title = t,
              f_description = or_empty (body_description body),
              f_fields = stringify (JArr F), f_created_at = now\<rparr>]\<rparr>,
          \<lparr>fm_id = newId, fm_title = t, fm_description = or_empty (body_description body),
           fm_fields = JArr F, fm_created_at = None, fm_createdAt = Some jsnow\<rparr>)"
  using assms
  by (simp add: createForm_def invalid_form_def falsy_str_def truthy_opt_def insert_form_def
      or_empty_def Let_def)

lemma getForm_after_createForm:
  assumes "body_title body = Some t" "t \<noteq> []" "body_fields body = Some (JArr F)"
    and "newId \<notin> set (map f_id (forms st))" and "list_all wf_json F"
    and "createForm st newId now jsnow body = Inr (st', out)"
  shows "\<exists>g. getForm st' newId = Inr g \<and> fm_fields g = JArr F"
proof -
  let ?row = "\<lparr>f_id = newId, f_title = t, f_description = or_empty (body_description body),
              f_fields = stringify (JArr F), f_created_at = now\<rparr>"
  have st': "st' = st\<lparr>forms := forms st @ [?row]\<rparr>"
    using createForm_valid [OF assms(1-4), of now jsnow] assms(6) by simp
  have "select_form st' newId = Some ?row"
    using select_form_inserted [of ?row st] assms(4) by (simp add: st')
  moreover have "parse_column (stringify (JArr F)) = Inr (JArr F)"
    using assms(5) by (intro parse_column_stringify) simp
  ultimately show ?thesis
    by (simp add: getForm_def form_of_row_def)
qed

text \<open>
  Claim C6.  A form created with any sequence \<open>F\<close> of fields, of whatever types, reads back
  through \<open>getForm\<close> with exactly the fields \<open>F\<close> in the same order: the text written by
  \<^verbatim>\<open>JSON.stringify\<close> parses back to the value it was written from.  (The id that
  \<^verbatim>\<open>uuidv4()\<close> returns is new, the title is not empty.)
\<close>

theorem fields_round_trip:
  assumes "body_title body = Some t" and "t \<noteq> []"
    and "body_fields body = Some (JArr (map field_json F))"
    and "newId \<notin> set (map f_id (forms st))"
  shows "\<exists>st' out g. createForm st newId now jsnow body = Inr (st', out)
           \<and> getForm st' newId = Inr g
           \<and> fm_fields g = JArr (map field_json F)
           \<and> fm_fields out = JArr (map field_json F)"
proof -
  obtain st' out where c: "createForm st newId now jsnow body = Inr (st', out)"
    and o: "fm_fields out = JArr (map field_json F)"
    using createForm_valid [OF assms, of now jsnow] by simp
  have "list_all wf_json (map field_json F)"
    by (simp add: list_all_iff wf_field_json)
  from getForm_after_createForm [OF assms this c] c o show ?thesis by blast
qed

theorem fields_round_trip_witness:
  "''f1'' \<notin> set (map f_id (forms db_open)) \<and>
   (\<exists>st' out g.
      createForm db_open ''f1'' 10 11
        \<lparr>body_title = Some ''Club'', body_description = None,
         body_fields = Some (JArr (map field_json sample_fields))\<rparr> = Inr (st', out)
      \<and> getForm st' ''f1'' = Inr g
      \<and> fm_fields g = JArr (map field_json sample_fields)
      \<and> fm_fields out = JArr (map field_json sample_fields))"
  using fields_round_trip [of "\<lparr>body_title = Some ''Club'', body_description = None,
         body_fields = Some (JArr (map field_json sample_fields))\<rparr>" "''Club''" sample_fields
         "''f1''" db_open 10 11]
  by (simp add: db_open_def)

subsection \<open>Validation of a new form\<close>

lemma isArray_truthy: "isArray v \<Longrightarrow> truthy_opt v"
  by (cases v rule: isArray.cases) (simp_all add: truthy_opt_def)

lemma isArray_iff: "isArray v \<longleftrightarrow> (\<exists>xs. v = Some (JArr xs))"
  by (cases v rule: isArray.cases) simp_all

lemma invalid_form_iff:
  "invalid_form body \<longleftrightarrow>
     body_title body = None \<or> body_title body = Some [] \<or> \<not> isArray (body_fields body)"
  using isArray_truthy [of "body_fields body"] by (auto simp: invalid_form_def falsy_str_def)

lemma insert_form_not_validation: "insert_form st row \<noteq> Inl ValidationError"
  by (simp add: insert_form_def)

lemma createForm_ValidationError_iff:
  "createForm st newId now jsnow body = Inl ValidationError \<longleftrightarrow> invalid_form body"
proof (cases "invalid_form body")
  case True
  then show ?thesis by (simp add: createForm_def)
next
  case False
  then obtain xs where xs: "body_fields body = Some (JArr xs)"
    by (auto simp: invalid_form_iff isArray_iff)
  show ?thesis
    using False insert_form_not_validation
    by (auto simp: createForm_def xs Let_def insert_form_def split: sum.splits)
qed

text \<open>
  Claim C5.  \<open>createForm\<close> answers with the validation error (status 400) exactly when the
  title is absent or empty or \<open>fields\<close> is not an array.  In particular an empty title fails
  whatever the fields are, and a title that is not empty succeeds with an empty array of
  fields (the id from \<^verbatim>\<open>uuidv4()\<close> being new): no minimum number of fields.
\<close>

theorem createForm_validation:
  "(createForm st newId now jsnow body = Inl ValidationError \<longleftrightarrow>
      body_title body = None \<or> body_title body = Some [] \<or> \<not> isArray (body_fields body))
   \<and> (body_title body = Some [] \<longrightarrow> createForm st newId now jsnow body = Inl ValidationError)
   \<and> (body_title body = Some t \<and> t \<noteq> [] \<and> body_fields body = Some (JArr [])
        \<and> newId \<notin> set (map f_id (forms st)) \<longrightarrow>
        (\<exists>st' out. createForm st newId now jsnow body = Inr (st', out)
           \<and> fm_id out = newId \<and> fm_title out = t \<and> fm_fields out = JArr []
           \<and> map f_id (forms st') = map f_id (forms st) @ [newId]))
   \<and> http_status ValidationError = Some 400"
proof -
  have 1: "createForm st newId now jsnow body = Inl ValidationError \<longleftrightarrow>
      body_title body = None \<or> body_title body = Some [] \<or> \<not> isArray (body_fields body)"
    by (simp add: createForm_ValidationError_iff invalid_form_iff)
  have 3: "\<exists>st' out. createForm st newId now jsnow body = Inr (st', out)
           \<and> fm_id out = newId \<and> fm_title out = t \<and> fm_fields out = JArr []
           \<and> map f_id (forms st') = map f_id (forms st) @ [newId]"
    if "body_title body = Some t" "t \<noteq> []" "body_fields body = Some (JArr [])"
      "newId \<notin> set (map f_id (forms st))"
    using createForm_valid [OF that, of now jsnow] by simp
  from 1 3 show ?thesis by auto
qed

theorem createForm_validation_witness:
  "createForm db_open ''f1'' 100 101
      \<lparr>body_title = Some [], body_description = None,
       body_fields = Some (JArr (map field_json sample_fields))\<rparr> = Inl ValidationError
   \<and> createForm db_open ''f1'' 100 101
      \<lparr>body_title = Some ''Club'', body_description = None,
       body_fields = Some (JObj [])\<rparr> = Inl ValidationError
   \<and> ''f1'' \<notin> set (map f_id (forms db_open))
   \<and> (\<exists>st' out. createForm db_open ''f1'' 100 101
         \<lparr>body_title = Some ''Club'', body_description = None,
          body_fields = Some (JArr [])\<rparr> = Inr (st', out)
        \<and> fm_id out = ''f1'' \<and> fm_title out = ''Club'' \<and> fm_fields out = JArr []
        \<and> map f_id (forms st') = map f_id (forms db_open) @ [''f1''])"
  using createForm_validation [of db_open "''f1''" 100 101
      "\<lparr>body_title = Some [], body_description = None,
        body_fields = Some (JArr (map field_json sample_fields))\<rparr>" "[]"]
    createForm_validation [of db_open "''f1''" 100 101
      "\<lparr>body_title = Some ''Club'', body_description = None, body_fields = Some (JObj [])\<rparr>" "[]"]
    createForm_validation [of db_open "''f1''" 100 101
      "\<lparr>body_title = Some ''Club'', body_description = None, body_fields = Some (JArr [])\<rparr>"
      "''Club''"]
  by (simp add: db_open_def)

section \<open>Listings\<close>

subsection \<open>What \<^verbatim>\<open>ORDER BY\<close> promises\<close>

lemma sorter_ok_mset: "sorter_ok ord \<Longrightarrow> mset (ord ks) = mset [0..<length ks]"
  by (simp add: sorter_ok_def)

lemma sorter_ok_set: "sorter_ok ord \<Longrightarrow> set (ord ks) = {0..<length ks}"
  using sorter_ok_mset [of ord ks] by (metis set_mset_mset set_upt)

lemma sorter_ok_sorted:
  "sorter_ok ord \<Longrightarrow> sorted_wrt (\<lambda>i j. ks ! j \<le> ks ! i) (ord ks)"
  by (simp add: sorter_ok_def)

lemma order_by_desc_positions:
  assumes "sorter_ok ord"
  shows "order_by_desc ord key xs = map ((!) xs) (ord (map key xs))"
proof -
  have "\<forall>i \<in> set (ord (map key xs)). i < length xs"
    using sorter_ok_set [OF assms, of "map key xs"] by simp
  then have "filter (\<lambda>i. i < length xs) (ord (map key xs)) = ord (map key xs)"
    by (simp only: filter_True)
  then show ?thesis
    by (simp add: order_by_desc_def)
qed

lemma mset_order_by_desc:
  assumes "sorter_ok ord"
  shows "mset (order_by_desc ord key xs) = mset xs"
proof -
  have "mset (order_by_desc ord key xs) = image_mset ((!) xs) (mset (ord (map key xs)))"
    by (simp add: order_by_desc_positions [OF assms])
  also have "\<dots> = image_mset ((!) xs) (mset [0..<length xs])"
    using sorter_ok_mset [OF assms, of "map key xs"] by simp
  also have "\<dots> = mset (map ((!) xs) [0..<length xs])"
    by simp
  also have "\<dots> = mset xs"
    by (simp add: map_nth)
  finally show ?thesis .
qed

lemma set_order_by_desc: "sorter_ok ord \<Longrightarrow> set (order_by_desc ord key xs) = set xs"
  using mset_order_by_desc [of ord key xs] by (metis set_mset_mset)

lemma length_order_by_desc: "sorter_ok ord \<Longrightarrow> length (order_by_desc ord key xs) = length xs"
  using mset_order_by_desc [of ord key xs] by (metis size_mset)

lemma sorted_order_by_desc:
  assumes "sorter_ok ord"
  shows "sorted_wrt (\<lambda>a b. key b \<le> key a) (order_by_desc ord key xs)"
proof -
  let ?ks = "map key xs"
  have s: "sorted_wrt (\<lambda>i j. ?ks ! j \<le> ?ks ! i) (ord ?ks)"
    using assms by (rule sorter_ok_sorted)
  have "sorted_wrt (\<lambda>i j. key (xs ! j) \<le> key (xs ! i)) (ord ?ks)"
  proof (rule sorted_wrt_mono_rel [OF _ s])
    fix i j
    assume "i \<in> set (ord ?ks)" "j \<in> set (ord ?ks)" "?ks ! j \<le> ?ks ! i"
    then show "key (xs ! j) \<le> key (xs ! i)"
      using sorter_ok_set [OF assms, of ?ks] by simp
  qed
  then show ?thesis
    by (simp add: order_by_desc_positions [OF assms] sorted_wrt_map)
qed

lemma sorted_desc_unique:
  "sorted_wrt (\<lambda>a b. key b \<le> (key a :: nat)) ys \<Longrightarrow> sorted_wrt (\<lambda>a b. key b \<le> key a) zs
     \<Longrightarrow> mset ys = mset zs \<Longrightarrow> distinct (map key ys) \<Longrightarrow> ys = zs"
proof (induction ys arbitrary: zs)
  case Nil
  then show ?case by simp
next
  case (Cons y ys)
  from Cons.prems(3) obtain z zs' where zs: "zs = z # zs'"
    by (cases zs) auto
  have sets: "set (y # ys) = set (z # zs')"
    using Cons.prems(3) unfolding zs by (metis set_mset_mset)
  have "key z \<le> key y"
    using Cons.prems(1) sets by auto
  moreover have "key y \<le> key z"
    using Cons.prems(2) sets unfolding zs by auto
  ultimately have k: "key y = key z" by simp
  have inj: "inj_on key (set (y # ys))"
    using Cons.prems(4) by (simp only: distinct_map)
  have "z \<in> set (y # ys)" using sets by simp
  with inj k have yz: "y = z"
    by (meson inj_onD list.set_intros(1))
  have "ys = zs'"
    using Cons.prems unfolding zs yz by (intro Cons.IH) simp_all
  with yz zs show ?case by simp
qed

lemma order_by_desc_distinct:
  assumes "sorter_ok ord" and "sorter_ok ord'" and "distinct (map key xs)"
  shows "order_by_desc ord key xs = order_by_desc ord' key xs"
proof (rule sorted_desc_unique [of key])
  show "sorted_wrt (\<lambda>a b. key b \<le> key a) (order_by_desc ord key xs)"
    using assms(1) by (rule sorted_order_by_desc)
  show "sorted_wrt (\<lambda>a b. key b \<le> key a) (order_by_desc ord' key xs)"
    using assms(2) by (rule sorted_order_by_desc)
  show "mset (order_by_desc ord key xs) = mset (order_by_desc ord' key xs)"
    by (simp add: mset_order_by_desc assms)
  have "mset (map key (order_by_desc ord key xs)) = mset (map key xs)"
    using mset_order_by_desc [OF assms(1), of key xs] by (metis mset_map)
  then show "distinct (map key (order_by_desc ord key xs))"
    using assms(3) by (metis mset_eq_imp_distinct_iff)
qed

subsection \<open>Two engines\<close>

lemma mset_insert_desc: "mset (insert_desc key x xs) = add_mset x (mset xs)"
  by (induction xs) auto

lemma set_insert_desc: "set (insert_desc key x xs) = insert x (set xs)"
  by (induction xs) auto

lemma sorted_insert_desc:
  "sorted_wrt (\<lambda>a b. key b \<le> key a) xs
    \<Longrightarrow> sorted_wrt (\<lambda>a b. key b \<le> key a) (insert_desc key x xs)"
  by (induction xs) (auto simp: set_insert_desc)

lemma mset_insert_desc_last: "mset (insert_desc_last key x xs) = add_mset x (mset xs)"
  by (induction xs) auto

lemma set_insert_desc_last: "set (insert_desc_last key x xs) = insert x (set xs)"
  by (induction xs) auto

lemma sorted_insert_desc_last:
  "sorted_wrt (\<lambda>a b. key b \<le> key a) xs
    \<Longrightarrow> sorted_wrt (\<lambda>a b. key b \<le> key a) (insert_desc_last key x xs)"
  by (induction xs) (auto simp: set_insert_desc_last)

lemma sorter_ok_by_insertion:
  assumes "\<And>x xs. mset (ins x xs) = add_mset x (mset (xs :: (nat \<times> nat) list))"
    and "\<And>x xs. sorted_wrt (\<lambda>a b. fst b \<le> fst a) xs \<Longrightarrow> sorted_wrt (\<lambda>a b. fst b \<le> fst a) (ins x xs)"
  shows "sorter_ok (\<lambda>ks. map snd (foldr ins (zip ks [0..<length ks]) []))"
proof -
  have m: "mset (foldr ins ps []) = mset ps" for ps
    by (induction ps) (simp_all add: assms(1))
  have s: "sorted_wrt (\<lambda>a b. fst b \<le> fst a) (foldr ins ps [])" for ps
    by (induction ps) (simp_all add: assms(2))
  have "mset (map snd (foldr ins (zip ks [0..<length ks]) [])) = mset [0..<length ks]
      \<and> sorted_wrt (\<lambda>i j. ks ! j \<le> ks ! i) (map snd (foldr ins (zip ks [0..<length ks]) []))" for ks
  proof
    let ?ps = "zip ks [0..<length ks]"
    have "mset (map snd (foldr ins ?ps [])) = image_mset snd (mset (foldr ins ?ps []))"
      by (simp only: mset_map)
    also have "\<dots> = image_mset snd (mset ?ps)"
      by (simp only: m)
    also have "\<dots> = mset (map snd ?ps)"
      by (simp only: mset_map)
    also have "map snd ?ps = [0..<length ks]"
      by simp
    finally show "mset (map snd (foldr ins ?ps [])) = mset [0..<length ks]" .
    have "set (foldr ins ?ps []) = set ?ps"
      using m [of ?ps] by (metis set_mset_mset)
    then have p: "fst p = ks ! snd p" if "p \<in> set (foldr ins ?ps [])" for p
      using that by (auto simp: set_zip)
    have "sorted_wrt (\<lambda>a b. ks ! snd b \<le> ks ! snd a) (foldr ins ?ps [])"
      by (rule sorted_wrt_mono_rel [OF _ s [of ?ps]]) (simp add: p)
    then show "sorted_wrt (\<lambda>i j. ks ! j \<le> ks ! i) (map snd (foldr ins ?ps []))"
      by (simp add: sorted_wrt_map)
  qed
  then show ?thesis
    unfolding sorter_ok_def by blast
qed

lemma sorter_ok_stable_sorter: "sorter_ok stable_sorter"
proof -
  have "sorter_ok (\<lambda>ks. map snd (foldr (insert_desc fst) (zip ks [0..<length ks]) []))"
    by (rule sorter_ok_by_insertion) (simp_all add: mset_insert_desc sorted_insert_desc)
  moreover have "stable_sorter = (\<lambda>ks. map snd (foldr (insert_desc fst) (zip ks [0..<length ks]) []))"
    by (rule ext) (simp add: stable_sorter_def)
  ultimately show ?thesis by simp
qed

lemma sorter_ok_reversing_sorter: "sorter_ok reversing_sorter"
proof -
  have "sorter_ok (\<lambda>ks. map snd (foldr (insert_desc_last fst) (zip ks [0..<length ks]) []))"
    by (rule sorter_ok_by_insertion) (simp_all add: mset_insert_desc_last sorted_insert_desc_last)
  moreover have "reversing_sorter = (\<lambda>ks. map snd (foldr (insert_desc_last fst) (zip ks [0..<length ks]) []))"
    by (rule ext) (simp add: reversing_sorter_def)
  ultimately show ?thesis by simp
qed

subsection \<open>The three listings\<close>

lemma map_rows_Inr:
  "map_rows f xs = Inr ys \<Longrightarrow> list_all2 (\<lambda>x y. f x = Inr y) xs ys"
  by (induction xs arbitrary: ys) (auto split: sum.splits)

lemma list_all2_map_eq:
  "list_all2 R xs ys \<Longrightarrow> (\<And>x y. R x y \<Longrightarrow> g y = h x) \<Longrightarrow> map g ys = map h xs"
  by (induction rule: list_all2_induct) auto

lemma sorted_wrt_map_eq:
  "map g ys = map h xs \<Longrightarrow> sorted_wrt (\<lambda>a b. h b \<le> h a) xs
     \<Longrightarrow> sorted_wrt (\<lambda>a b. (g b :: nat) \<le> g a) ys"
proof -
  assume m: "map g ys = map h xs" and s: "sorted_wrt (\<lambda>a b. h b \<le> h a) xs"
  from s have "sorted_wrt (\<lambda>a b. b \<le> a) (map h xs)" by (simp add: sorted_wrt_map)
  with m have "sorted_wrt (\<lambda>a b. b \<le> a) (map g ys)" by simp
  then show ?thesis by (simp add: sorted_wrt_map)
qed

lemma parse_column_Inr: "parse_column s = Inr v \<Longrightarrow> JSON_parse s = Parsed v"
  by (auto simp: parse_column_def split: parsed.splits)




lemma response_of_joined_Inr:
  "response_of_joined p = Inr y \<Longrightarrow>
     rs_id y = r_id (fst p) \<and> rs_submittedAt y = r_submitted_at (fst p)"
  by (auto simp: response_of_joined_def split: sum.splits)






lemma select_joined_order:
  assumes "sorter_ok (sorter rt)"
    and "map_rows response_of_joined (take n (select_joined rt st)) = Inr rs"
  shows "map rs_id rs = map (\<lambda>p. r_id (fst p)) (take n (select_joined rt st))"
    and "sorted_wrt (\<lambda>a b. rs_submittedAt b \<le> rs_submittedAt a) rs"
proof -
  let ?rows = "take n (select_joined rt st)"
  have rel: "list_all2 (\<lambda>x y. response_of_joined x = Inr y) ?rows rs"
    using assms(2) by (intro map_rows_Inr)
  show "map rs_id rs = map (\<lambda>p. r_id (fst p)) ?rows"
    using rel by (rule list_all2_map_eq) (simp add: response_of_joined_Inr)
  have m: "map rs_submittedAt rs = map (\<lambda>p. r_submitted_at (fst p)) ?rows"
    using rel by (rule list_all2_map_eq) (simp add: response_of_joined_Inr)
  have "sorted_wrt (\<lambda>a b. r_submitted_at (fst b) \<le> r_submitted_at (fst a)) (select_joined rt st)"
    unfolding select_joined_def using assms(1) by (rule sorted_order_by_desc)
  then have "sorted_wrt (\<lambda>a b. r_submitted_at (fst b) \<le> r_submitted_at (fst a)) ?rows"
    by (rule sorted_wrt_take)
  with m show "sorted_wrt (\<lambda>a b. rs_submittedAt b \<le> rs_submittedAt a) rs"
    by (rule sorted_wrt_map_eq)
qed


subsection \<open>The example store under the two engines\<close>

lemma wf_example_fields: "wf_json example_fields"
  by (simp add: example_fields_def array_index_key_def is_digit_def)

lemma parse_example_fields: "parse_column (stringify example_fields) = Inr example_fields"
  by (rule parse_column_stringify [OF wf_example_fields])

lemma parse_empty_array: "parse_column (stringify (JArr [])) = Inr (JArr [])"
  by (rule parse_column_stringify) simp

lemma parse_example_answers:
  "parse_column (stringify (JObj [(''name'', JStr ''Alice''), (''tags'', JArr [JStr ''a'', JStr ''b''])]))
     = Inr (JObj [(''name'', JStr ''Alice''), (''tags'', JArr [JStr ''a'', JStr ''b''])])"
  "parse_column (stringify (JObj [(''name'', JStr ''Bob'')])) = Inr (JObj [(''name'', JStr ''Bob'')])"
  "parse_column (stringify (JObj [])) = Inr (JObj [])"
  by (rule parse_column_stringify, simp add: array_index_key_def is_digit_def)+





section \<open>Submitting a response\<close>

lemma select_form_Some_id:
  "select_form st i = Some row \<Longrightarrow> i \<in> set (map f_id (forms st))"
  by (auto simp: select_form_def find_Some_iff)

lemma select_form_None_iff:
  "select_form st i = None \<longleftrightarrow> i \<notin> set (map f_id (forms st))"
  by (auto simp: select_form_def find_None_iff)

lemma object_answers:
  "truthy_opt v \<and> typeof v = TObject \<longleftrightarrow> (\<exists>xs. v = Some (JArr xs)) \<or> (\<exists>kvs. v = Some (JObj kvs))"
  by (cases v rule: typeof.cases) (simp_all add: truthy_opt_def)

lemma submitResponse_invalid:
  "\<not> truthy_opt (body_answers body) \<or> typeof (body_answers body) \<noteq> TObject
     \<Longrightarrow> submitResponse st st' rid now jsnow fid body = Inl ValidationError"
  by (auto simp: submitResponse_def)

lemma submitResponse_no_form:
  assumes "truthy_opt (body_answers body)" "typeof (body_answers body) = TObject"
    and "select_form st fid = None"
  shows "submitResponse st st' rid now jsnow fid body = Inl NotFound"
proof -
  obtain a where "body_answers body = Some a"
    using assms(1,2) object_answers [of "body_answers body"] by auto
  with assms show ?thesis by (simp add: submitResponse_def)
qed

lemma submitResponse_stored:
  assumes "body_answers body = Some a" "truthy_opt (Some a)" "typeof (Some a) = TObject"
    and "select_form st fid \<noteq> None" and "rid \<notin> set (map r_id (responses st'))"
    and "\<not> foreign_keys st' \<or> fid \<in> set (map f_id (forms st'))"
  shows "submitResponse st st' rid now jsnow fid body =
     Inr (st'\<lparr>responses := responses st' @
            [\<lparr>r_id = rid, r_form_id = fid, r_answers = stringify a,
              r_submitter_name = or_null (body_submitterName body),
              r_submitter_email = or_null (body_submitterEmail body),
              r_submitted_at = now\<rparr>]\<rparr>,
          \<lparr>rs_id = rid, rs_formId = fid, rs_formTitle = None, rs_answers = a,
           rs_submitterName = body_submitterName body,
           rs_submitterEmail = body_submitterEmail body, rs_submittedAt = jsnow\<rparr>)"
proof -
  obtain row where row: "select_form st fid = Some row" using assms(4) by auto
  with assms(1-3,5,6) show ?thesis
    by (auto simp add: submitResponse_def insert_response_def Let_def)
qed

lemma submitResponse_Inr:
  assumes "submitResponse st st' rid now jsnow fid body = Inr (st'', out)"
  shows "fid \<in> set (map f_id (forms st))" and "rid \<notin> set (map r_id (responses st'))"
    and "\<exists>a. body_answers body = Some a \<and> truthy_opt (Some a) \<and> typeof (Some a) = TObject"
    and "\<not> foreign_keys st' \<or> fid \<in> set (map f_id (forms st'))"
proof -
  have v: "truthy_opt (body_answers body)" "typeof (body_answers body) = TObject"
    using assms submitResponse_invalid [of body st st' rid now jsnow fid] by auto
  then obtain a where a: "body_answers body = Some a"
    using object_answers [of "body_answers body"] by auto
  with v show "\<exists>a. body_answers body = Some a \<and> truthy_opt (Some a) \<and> typeof (Some a) = TObject"
    by simp
  have "select_form st fid \<noteq> None"
    using assms submitResponse_no_form [OF v, of st fid st' rid now jsnow] by auto
  then show "fid \<in> set (map f_id (forms st))"
    by (simp add: select_form_None_iff)
  show "rid \<notin> set (map r_id (responses st'))"
  proof
    assume "rid \<in> set (map r_id (responses st'))"
    then have "submitResponse st st' rid now jsnow fid body = Inl StoreError \<or>
               submitResponse st st' rid now jsnow fid body = Inl NotFound"
      using a v by (auto simp: submitResponse_def insert_response_def Let_def split: option.splits)
    with assms show False by auto
  qed
  show "\<not> foreign_keys st' \<or> fid \<in> set (map f_id (forms st'))"
  proof (rule ccontr)
    assume "\<not> (\<not> foreign_keys st' \<or> fid \<in> set (map f_id (forms st')))"
    then have "submitResponse st st' rid now jsnow fid body = Inl StoreError \<or>
               submitResponse st st' rid now jsnow fid body = Inl NotFound"
      using a v by (auto simp: submitResponse_def insert_response_def Let_def split: option.splits)
    with assms show False by auto
  qed
qed

text \<open>
  Claim C4, as the code has it.  \<open>submitResponse\<close> answers with the validation error (400)
  when \<open>answers\<close> is missing or is not an object, whatever the form id.  With valid answers
  it answers NotFound (404) when no form has the id in the store \<open>st\<close> that its \<^verbatim>\<open>SELECT\<close>
  reads, and nothing is inserted; it succeeds only if the form is in \<open>st\<close>.  The \<^verbatim>\<open>INSERT\<close>
  runs on the store \<open>st'\<close> of a later moment, and with foreign keys not enforced it asks
  only for a new response id: whether the form is still in \<open>st'\<close> plays no part.  On
  success \<open>st'\<close> gains one row: the new id, the form id, the answers as \<^verbatim>\<open>JSON.stringify\<close>
  writes them (a text that \<^verbatim>\<open>JSON.parse\<close> reads back as the answers), the database clock,
  and each submitter field or \<^verbatim>\<open>null\<close> when it is empty or absent.  The answer carries the
  id, the form id and the answers of that row, the submitter fields as the request gave
  them, and the JavaScript clock.
\<close>

theorem submitResponse_checks:
  "(\<not> truthy_opt (body_answers body) \<or> typeof (body_answers body) \<noteq> TObject \<longrightarrow>
       submitResponse st st' rid now jsnow fid body = Inl ValidationError)
   \<and> (truthy_opt (body_answers body) \<and> typeof (body_answers body) = TObject
        \<and> fid \<notin> set (map f_id (forms st)) \<longrightarrow>
       submitResponse st st' rid now jsnow fid body = Inl NotFound)
   \<and> (submitResponse st st' rid now jsnow fid body = Inr (st'', out) \<longrightarrow>
         truthy_opt (body_answers body) \<and> typeof (body_answers body) = TObject
         \<and> fid \<in> set (map f_id (forms st)) \<and> rid \<notin> set (map r_id (responses st')))
   \<and> (truthy_opt (body_answers body) \<and> typeof (body_answers body) = TObject
        \<and> fid \<in> set (map f_id (forms st)) \<and> rid \<notin> set (map r_id (responses st'))
        \<and> \<not> foreign_keys st' \<longrightarrow>
       (\<exists>a. body_answers body = Some a \<and>
          submitResponse st st' rid now jsnow fid body =
            Inr (st'\<lparr>responses := responses st' @
                   [\<lparr>r_id = rid, r_form_id = fid, r_answers = stringify a,
                     r_submitter_name = or_null (body_submitterName body),
                     r_submitter_email = or_null (body_submitterEmail body),
                     r_submitted_at = now\<rparr>]\<rparr>,
                 \<lparr>rs_id = rid, rs_formId = fid, rs_formTitle = None, rs_answers = a,
                  rs_submitterName = body_submitterName body,
                  rs_submitterEmail = body_submitterEmail body, rs_submittedAt = jsnow\<rparr>)
          \<and> (wf_json a \<longrightarrow> JSON_parse (stringify a) = Parsed a)))
   \<and> http_status ValidationError = Some 400 \<and> http_status NotFound = Some 404"
proof -
  have 2: "submitResponse st st' rid now jsnow fid body = Inl NotFound"
    if "truthy_opt (body_answers body)" "typeof (body_answers body) = TObject"
      "fid \<notin> set (map f_id (forms st))"
    using that submitResponse_no_form [of body st fid st' rid now jsnow]
    by (simp add: select_form_None_iff)
  have 3: "truthy_opt (body_answers body) \<and> typeof (body_answers body) = TObject
         \<and> fid \<in> set (map f_id (forms st)) \<and> rid \<notin> set (map r_id (responses st'))"
    if "submitResponse st st' rid now jsnow fid body = Inr (st'', out)"
    using submitResponse_Inr(1-3) [OF that] by auto
  have 4: "\<exists>a. body_answers body = Some a \<and>
          submitResponse st st' rid now jsnow fid body =
            Inr (st'\<lparr>responses := responses st' @
                   [\<lparr>r_id = rid, r_form_id = fid, r_answers = stringify a,
                     r_submitter_name = or_null (body_submitterName body),
                     r_submitter_email = or_null (body_submitterEmail body),
                     r_submitted_at = now\<rparr>]\<rparr>,
                 \<lparr>rs_id = rid, rs_formId = fid, rs_formTitle = None, rs_answers = a,
                  rs_submitterName = body_submitterName body,
                  rs_submitterEmail = body_submitterEmail body, rs_submittedAt = jsnow\<rparr>)
          \<and> (wf_json a \<longrightarrow> JSON_parse (stringify a) = Parsed a)"
    if v: "truthy_opt (body_answers body)" "typeof (body_answers body) = TObject"
      and f: "fid \<in> set (map f_id (forms st))" and r: "rid \<notin> set (map r_id (responses st'))"
      and k: "\<not> foreign_keys st'"
  proof -
    obtain a where a: "body_answers body = Some a"
      using v object_answers [of "body_answers body"] by auto
    have s: "select_form st fid \<noteq> None" using f by (simp add: select_form_None_iff)
    have va: "truthy_opt (Some a)" "typeof (Some a) = TObject" using v a by simp_all
    have k': "\<not> foreign_keys st' \<or> fid \<in> set (map f_id (forms st'))" using k by simp
    note e = submitResponse_stored [OF a va s r k', of now jsnow]
    show ?thesis
      by (intro exI [of _ a] conjI impI a e JSON_parse_stringify)
  qed
  have 1: "submitResponse st st' rid now jsnow fid body = Inl ValidationError"
    if "\<not> truthy_opt (body_answers body) \<or> typeof (body_answers body) \<noteq> TObject"
    using that by (rule submitResponse_invalid)
  show ?thesis
  proof (intro conjI impI)
    show "http_status ValidationError = Some 400" "http_status NotFound = Some 404"
      by simp_all
  qed (use 1 2 3 4 in blast)+
qed

lemma blank_name_submission_value:
  "blank_name_submission =
     Inr (example_store\<lparr>responses := responses example_store @
            [\<lparr>r_id = ''r9'', r_form_id = ''f2'', r_answers = stringify (JObj []),
              r_submitter_name = None, r_submitter_email = None, r_submitted_at = 500\<rparr>]\<rparr>,
          \<lparr>rs_id = ''r9'', rs_formId = ''f2'', rs_formTitle = None, rs_answers = JObj [],
           rs_submitterName = Some [], rs_submitterEmail = None, rs_submittedAt = 500\<rparr>)"
proof -
  have f: "select_form example_store ''f2'' \<noteq> None"
    by (simp add: select_form_def example_store_def)
  have r: "''r9'' \<notin> set (map r_id (responses example_store))"
    by (simp add: example_store_def)
  have k: "\<not> foreign_keys example_store \<or> ''f2'' \<in> set (map f_id (forms example_store))"
    by (simp add: example_store_def)
  show ?thesis
    unfolding blank_name_submission_def
    using submitResponse_stored [OF _ _ _ f r k, of blank_name_body "JObj []" 500 500]
    by (simp add: blank_name_body_def truthy_opt_def or_null_def falsy_str_def)
qed

lemma late_submission_value:
  "late_submission =
     Inr (store_without_f2\<lparr>responses := responses store_without_f2 @
            [\<lparr>r_id = ''r9'', r_form_id = ''f2'', r_answers = stringify (JObj []),
              r_submitter_name = None, r_submitter_email = None, r_submitted_at = 500\<rparr>]\<rparr>,
          \<lparr>rs_id = ''r9'', rs_formId = ''f2'', rs_formTitle = None, rs_answers = JObj [],
           rs_submitterName = Some [], rs_submitterEmail = None, rs_submittedAt = 500\<rparr>)"
proof -
  have f: "select_form example_store ''f2'' \<noteq> None"
    by (simp add: select_form_def example_store_def)
  have r: "''r9'' \<notin> set (map r_id (responses store_without_f2))"
    by (simp add: example_store_def store_without_f2_def)
  have k: "\<not> foreign_keys store_without_f2 \<or> ''f2'' \<in> set (map f_id (forms store_without_f2))"
    by (simp add: example_store_def store_without_f2_def)
  show ?thesis
    unfolding late_submission_def
    using submitResponse_stored [OF _ _ _ f r k, of blank_name_body "JObj []" 500 500]
    by (simp add: blank_name_body_def truthy_opt_def or_null_def falsy_str_def)
qed

lemma deleteForm_f2: "deleteForm example_store ''f2'' = Inr store_without_f2"
  by (simp add: deleteForm_def delete_form_def store_without_f2_def example_store_def Let_def)

theorem submitResponse_checks_witness:
  \<open>submitResponse example_store example_store ''r9'' 500 500 ''f2''
      \<lparr>body_answers = Some (JStr ''yes''), body_submitterName = None,
       body_submitterEmail = None\<rparr> = Inl ValidationError
   \<and> submitResponse example_store example_store ''r9'' 500 500 ''f7''
      \<lparr>body_answers = None, body_submitterName = None,
       body_submitterEmail = None\<rparr> = Inl ValidationError
   \<and> ''f7'' \<notin> set (map f_id (forms example_store))
   \<and> submitResponse example_store example_store ''r9'' 500 500 ''f7'' blank_name_body = Inl NotFound
   \<and> ''f2'' \<in> set (map f_id (forms example_store))
   \<and> ''r9'' \<notin> set (map r_id (responses example_store))
   \<and> \<not> foreign_keys example_store
   \<and> submitResponse example_store example_store ''r9'' 500 501 ''f2'' blank_name_body =
       Inr (example_store\<lparr>responses := responses example_store @
              [\<lparr>r_id = ''r9'', r_form_id = ''f2'', r_answers = ''{}'',
                r_submitter_name = None, r_submitter_email = None, r_submitted_at = 500\<rparr>]\<rparr>,
            \<lparr>rs_id = ''r9'', rs_formId = ''f2'', rs_formTitle = None, rs_answers = JObj [],
             rs_submitterName = Some [], rs_submitterEmail = None, rs_submittedAt = 501\<rparr>)
   \<and> JSON_parse ''{}'' = Parsed (JObj [])\<close>
  using submitResponse_checks [of "\<lparr>body_answers = Some (JStr ''yes''), body_submitterName = None,
       body_submitterEmail = None\<rparr>" example_store example_store "''r9''" 500 500 "''f2''"]
    submitResponse_checks [of "\<lparr>body_answers = None, body_submitterName = None,
       body_submitterEmail = None\<rparr>" example_store example_store "''r9''" 500 500 "''f7''"]
    submitResponse_checks [of blank_name_body example_store example_store "''r9''" 500 500 "''f7''"]
    submitResponse_checks [of blank_name_body example_store example_store "''r9''" 500 501 "''f2''"]
  by (simp add: example_store_def blank_name_body_def truthy_opt_def or_null_def falsy_str_def)

text \<open>
  Claim C9.  The check on \<open>answers\<close> lets every value of type \<^verbatim>\<open>'object'\<close> other than
  \<^verbatim>\<open>null\<close> through, an array as well as an object: the submission is not a validation
  error, and for a form that the \<^verbatim>\<open>SELECT\<close> finds and a new id the row holds the answers as
  \<^verbatim>\<open>JSON.stringify\<close> writes them, a text from which \<^verbatim>\<open>JSON.parse\<close> gives the same answers
  back, and the answer carries them unchanged.
\<close>

theorem submitResponse_accepts_objects:
  assumes "body_answers body = Some a" and "typeof (Some a) = TObject" and "a \<noteq> JNull"
  shows "submitResponse st st' rid now jsnow fid body \<noteq> Inl ValidationError
    \<and> (fid \<in> set (map f_id (forms st)) \<and> rid \<notin> set (map r_id (responses st'))
         \<and> \<not> foreign_keys st' \<longrightarrow>
         (\<exists>st'' out row. submitResponse st st' rid now jsnow fid body = Inr (st'', out)
            \<and> rs_answers out = a
            \<and> responses st'' = responses st' @ [row]
            \<and> r_id row = rid \<and> r_form_id row = fid \<and> r_answers row = stringify a
            \<and> (wf_json a \<longrightarrow> JSON_parse (r_answers row) = Parsed a)))"
proof -
  have t: "truthy_opt (Some a)"
    using assms(2,3) by (cases a) (simp_all add: truthy_opt_def)
  have 1: "submitResponse st st' rid now jsnow fid body \<noteq> Inl ValidationError"
    using assms(1,2) t
    by (auto simp: submitResponse_def insert_response_def Let_def split: option.splits)
  have 2: "\<exists>st'' out row. submitResponse st st' rid now jsnow fid body = Inr (st'', out)
            \<and> rs_answers out = a
            \<and> responses st'' = responses st' @ [row]
            \<and> r_id row = rid \<and> r_form_id row = fid \<and> r_answers row = stringify a
            \<and> (wf_json a \<longrightarrow> JSON_parse (r_answers row) = Parsed a)"
    if "fid \<in> set (map f_id (forms st))" "rid \<notin> set (map r_id (responses st'))"
      "\<not> foreign_keys st'"
  proof -
    have "select_form st fid \<noteq> None" using that(1) by (simp add: select_form_None_iff)
    from submitResponse_stored [OF assms(1) t assms(2) this that(2), of now jsnow] that(3)
      JSON_parse_stringify [of a]
    show ?thesis by simp
  qed
  from 1 2 show ?thesis by blast
qed

lemma show_int_one: "show_int 1 = ''1''"
  by code_simp

theorem submitResponse_accepts_objects_witness:
  \<open>typeof (Some (JArr [JStr ''a'', JNum 1])) = TObject \<and> JArr [JStr ''a'', JNum 1] \<noteq> JNull
   \<and> typeof (Some (JObj [])) = TObject \<and> JObj [] \<noteq> JNull
   \<and> ''f2'' \<in> set (map f_id (forms example_store))
   \<and> ''r9'' \<notin> set (map r_id (responses example_store))
   \<and> \<not> foreign_keys example_store
   \<and> wf_json (JArr [JStr ''a'', JNum 1]) \<and> wf_json (JObj [])
   \<and> (\<exists>st' out row.
        submitResponse example_store example_store ''r9'' 500 501 ''f2''
          \<lparr>body_answers = Some (JArr [JStr ''a'', JNum 1]), body_submitterName = None,
           body_submitterEmail = None\<rparr> = Inr (st', out)
        \<and> rs_answers out = JArr [JStr ''a'', JNum 1]
        \<and> responses st' = responses example_store @ [row]
        \<and> r_id row = ''r9'' \<and> r_form_id row = ''f2''
        \<and> r_answers row = ''["a",1]''
        \<and> JSON_parse (r_answers row) = Parsed (JArr [JStr ''a'', JNum 1]))
   \<and> (\<exists>st' out row.
        submitResponse example_store example_store ''r9'' 500 501 ''f2''
          \<lparr>body_answers = Some (JObj []), body_submitterName = None,
           body_submitterEmail = None\<rparr> = Inr (st', out)
        \<and> rs_answers out = JObj []
        \<and> responses st' = responses example_store @ [row]
        \<and> r_id row = ''r9'' \<and> r_form_id row = ''f2''
        \<and> r_answers row = ''{}''
        \<and> JSON_parse (r_answers row) = Parsed (JObj []))\<close>
proof -
  have f: "''f2'' \<in> set (map f_id (forms example_store))"
    and r: "''r9'' \<notin> set (map r_id (responses example_store))"
    and k: "\<not> foreign_keys example_store"
    by (simp_all add: example_store_def)
  have s: "stringify (JArr [JStr ''a'', JNum 1]) = ''[\"a\",1]''" "stringify (JObj []) = ''{}''"
    by (simp_all add: show_int_one quote_def escape_char_def)
  show ?thesis
    using f r k
      submitResponse_accepts_objects [of "\<lparr>body_answers = Some (JArr [JStr ''a'', JNum 1]),
        body_submitterName = None, body_submitterEmail = None\<rparr>" "JArr [JStr ''a'', JNum 1]"
        example_store example_store "''r9''" 500 501 "''f2''"]
      submitResponse_accepts_objects [of "\<lparr>body_answers = Some (JObj []),
        body_submitterName = None, body_submitterEmail = None\<rparr>" "JObj []"
        example_store example_store "''r9''" 500 501 "''f2''"]
    by (simp add: s del: stringify.simps)
qed

section \<open>Updating a form\<close>

lemma updateForm_ValidationError_iff:
  "updateForm st i body = Inl ValidationError \<longleftrightarrow> invalid_form body"
proof (cases "invalid_form body")
  case True
  then show ?thesis by (simp add: updateForm_def)
next
  case False
  then obtain xs where xs: "body_fields body = Some (JArr xs)"
    by (auto simp: invalid_form_iff isArray_iff)
  show ?thesis
    using False by (simp add: updateForm_def xs Let_def update_form_def)
qed

lemma filter_id_empty_iff:
  "length (filter (\<lambda>row. f_id row = i) rows) = 0 \<longleftrightarrow> i \<notin> set (map f_id rows)"
  by (induction rows) auto

lemma updateForm_valid:
  assumes "body_title body = Some t" "t \<noteq> []" "body_fields body = Some (JArr fs)"
  shows "updateForm st i body =
    (if i \<in> set (map f_id (forms st))
     then Inr (st\<lparr>forms := map (\<lambda>row. if f_id row = i
                      then row\<lparr>f_title := t, f_description := or_empty (body_description body),
                               f_fields := stringify (JArr fs)\<rparr>
                      else row) (forms st)\<rparr>,
               \<lparr>fm_id = i, fm_title = t, fm_description = or_empty (body_description body),
                fm_fields = JArr fs, fm_created_at = None, fm_createdAt = None\<rparr>)
     else Inl NotFound)"
  using assms filter_id_empty_iff [of i "forms st"]
  by (simp add: updateForm_def invalid_form_def falsy_str_def truthy_opt_def update_form_def
      or_empty_def Let_def del: stringify.simps)

lemma find_map_update:
  "find (\<lambda>row. f_id row = i) (map (\<lambda>row. if f_id row = i then g row else row) rows) =
     map_option g (find (\<lambda>row. f_id row = i) rows)"
  if "\<And>row. f_id (g row) = f_id row"
  using that by (induction rows) auto

lemma updateForm_Inr:
  assumes "updateForm st i body = Inr (st', out)"
  shows "\<exists>t fs. body_title body = Some t \<and> t \<noteq> [] \<and> body_fields body = Some (JArr fs)"
    and "i \<in> set (map f_id (forms st))"
proof -
  have "\<not> invalid_form body"
    using assms updateForm_ValidationError_iff [of st i body] by auto
  then show v: "\<exists>t fs. body_title body = Some t \<and> t \<noteq> [] \<and> body_fields body = Some (JArr fs)"
    by (cases "body_title body") (auto simp: invalid_form_iff isArray_iff)
  then obtain t fs where "body_title body = Some t" "t \<noteq> []" "body_fields body = Some (JArr fs)"
    by blast
  from updateForm_valid [OF this, of st i] assms show "i \<in> set (map f_id (forms st))"
    by (auto split: if_splits)
qed

lemma map_id_update:
  "map f_id (map (\<lambda>row. if f_id row = i then g row else row) rows) = map f_id rows"
  if "\<And>row. f_id (g row) = f_id row"
  using that by (induction rows) auto

lemma filter_others_update:
  "filter (\<lambda>row. f_id row \<noteq> i) (map (\<lambda>row. if f_id row = i then g row else row) rows) =
     filter (\<lambda>row. f_id row \<noteq> i) rows"
  if "\<And>row. f_id (g row) = f_id row"
  using that by (induction rows) auto

text \<open>
  Claim C7, as the code has it.  \<open>updateForm\<close> rejects exactly the bodies that \<open>createForm\<close>
  rejects, answers NotFound when no row has the id, and otherwise replaces the title, the
  description and the fields of the rows with that id: the ids and the creation times of all
  rows, every row with another id and all responses stay as they were.  The answer carries
  the id and the new title, description and fields, and no \<open>createdAt\<close>.
\<close>

theorem updateForm_frame:
  "(updateForm st i body = Inl ValidationError \<longleftrightarrow>
      createForm st newId now jsnow body = Inl ValidationError)
   \<and> (\<not> invalid_form body \<and> i \<notin> set (map f_id (forms st)) \<longrightarrow>
        updateForm st i body = Inl NotFound)
   \<and> (\<not> invalid_form body \<and> i \<in> set (map f_id (forms st)) \<longrightarrow>
        (\<exists>st' out. updateForm st i body = Inr (st', out)))
   \<and> (updateForm st i body = Inr (st', out) \<longrightarrow>
        (\<exists>t fs. body_title body = Some t \<and> t \<noteq> [] \<and> body_fields body = Some (JArr fs)
           \<and> map f_id (forms st') = map f_id (forms st)
           \<and> map f_created_at (forms st') = map f_created_at (forms st)
           \<and> filter (\<lambda>row. f_id row \<noteq> i) (forms st') = filter (\<lambda>row. f_id row \<noteq> i) (forms st)
           \<and> (\<forall>k < length (forms st). f_id (forms st ! k) \<noteq> i \<longrightarrow> forms st' ! k = forms st ! k)
           \<and> (\<forall>k < length (forms st). f_id (forms st ! k) = i \<longrightarrow>
                 forms st' ! k = \<lparr>f_id = i, f_title = t,
                    f_description = or_empty (body_description body),
                    f_fields = stringify (JArr fs),
                    f_created_at = f_created_at (forms st ! k)\<rparr>)
           \<and> responses st' = responses st
           \<and> out = \<lparr>fm_id = i, fm_title = t, fm_description = or_empty (body_description body),
                     fm_fields = JArr fs, fm_created_at = None, fm_createdAt = None\<rparr>))"
proof -
  have 1: "updateForm st i body = Inl ValidationError \<longleftrightarrow>
      createForm st newId now jsnow body = Inl ValidationError"
    by (simp add: updateForm_ValidationError_iff createForm_ValidationError_iff)
  have valid: "\<exists>t fs. body_title body = Some t \<and> t \<noteq> [] \<and> body_fields body = Some (JArr fs)"
    if "\<not> invalid_form body"
    using that by (cases "body_title body") (auto simp: invalid_form_iff isArray_iff)
  have 2: "updateForm st i body = Inl NotFound"
    if ni: "\<not> invalid_form body" and nf: "i \<notin> set (map f_id (forms st))"
  proof -
    obtain t fs where "body_title body = Some t" "t \<noteq> []" "body_fields body = Some (JArr fs)"
      using valid [OF ni] by blast
    from updateForm_valid [OF this, of st i] nf show ?thesis by simp
  qed
  have 3: "\<exists>st' out. updateForm st i body = Inr (st', out)"
    if ni: "\<not> invalid_form body" and ex: "i \<in> set (map f_id (forms st))"
  proof -
    obtain t fs where "body_title body = Some t" "t \<noteq> []" "body_fields body = Some (JArr fs)"
      using valid [OF ni] by blast
    from updateForm_valid [OF this, of st i] ex show ?thesis by simp
  qed
  have 4: "\<exists>t fs. body_title body = Some t \<and> t \<noteq> [] \<and> body_fields body = Some (JArr fs)
           \<and> map f_id (forms st') = map f_id (forms st)
           \<and> map f_created_at (forms st') = map f_created_at (forms st)
           \<and> filter (\<lambda>row. f_id row \<noteq> i) (forms st') = filter (\<lambda>row. f_id row \<noteq> i) (forms st)
           \<and> (\<forall>k < length (forms st). f_id (forms st ! k) \<noteq> i \<longrightarrow> forms st' ! k = forms st ! k)
           \<and> (\<forall>k < length (forms st). f_id (forms st ! k) = i \<longrightarrow>
                 forms st' ! k = \<lparr>f_id = i, f_title = t,
                    f_description = or_empty (body_description body),
                    f_fields = stringify (JArr fs),
                    f_created_at = f_created_at (forms st ! k)\<rparr>)
           \<and> responses st' = responses st
           \<and> out = \<lparr>fm_id = i, fm_title = t, fm_description = or_empty (body_description body),
                     fm_fields = JArr fs, fm_created_at = None, fm_createdAt = None\<rparr>"
    if u: "updateForm st i body = Inr (st', out)"
  proof -
    obtain t fs where b: "body_title body = Some t" "t \<noteq> []" "body_fields body = Some (JArr fs)"
      using updateForm_Inr(1) [OF u] by blast
    let ?g = "\<lambda>row. if f_id row = i
                      then row\<lparr>f_title := t, f_description := or_empty (body_description body),
                               f_fields := stringify (JArr fs)\<rparr>
                      else row"
    have st': "st' = st\<lparr>forms := map ?g (forms st)\<rparr>"
      and out: "out = \<lparr>fm_id = i, fm_title = t, fm_description = or_empty (body_description body),
                     fm_fields = JArr fs, fm_created_at = None, fm_createdAt = None\<rparr>"
      using updateForm_valid [OF b, of st i] u updateForm_Inr(2) [OF u] by simp_all
    have ids: "map f_id (forms st') = map f_id (forms st)"
      unfolding st' by (simp add: map_id_update)
    have ts: "map f_created_at (forms st') = map f_created_at (forms st)"
      unfolding st' by (simp add: comp_def)
    have others: "filter (\<lambda>row. f_id row \<noteq> i) (forms st') = filter (\<lambda>row. f_id row \<noteq> i) (forms st)"
      unfolding st' by (simp add: filter_others_update)
    have same: "\<forall>k < length (forms st). f_id (forms st ! k) \<noteq> i \<longrightarrow> forms st' ! k = forms st ! k"
      unfolding st' by simp
    have new: "\<forall>k < length (forms st). f_id (forms st ! k) = i \<longrightarrow>
                 forms st' ! k = \<lparr>f_id = i, f_title = t,
                    f_description = or_empty (body_description body),
                    f_fields = stringify (JArr fs),
                    f_created_at = f_created_at (forms st ! k)\<rparr>"
      unfolding st' by (simp del: stringify.simps)
    have "responses st' = responses st" unfolding st' by simp
    with b ids ts others same new out show ?thesis by blast
  qed
  from 1 2 3 4 show ?thesis by blast
qed

lemma retitled_form_value:
  "retitled_form =
     Inr (example_store\<lparr>forms :=
            [\<lparr>f_id = ''f1'', f_title = ''Members 2027'', f_description = [],
               f_fields = stringify example_fields, f_created_at = 100\<rparr>,
             \<lparr>f_id = ''f2'', f_title = ''Events'', f_description = ''2026'',
               f_fields = stringify (JArr []), f_created_at = 100\<rparr>,
             \<lparr>f_id = ''f3'', f_title = ''Survey'', f_description = [],
               f_fields = stringify (JArr []), f_created_at = 200\<rparr>]\<rparr>,
          \<lparr>fm_id = ''f1'', fm_title = ''Members 2027'', fm_description = [],
           fm_fields = example_fields, fm_created_at = None, fm_createdAt = None\<rparr>)"
  unfolding retitled_form_def
  by (simp add: updateForm_def invalid_form_def falsy_str_def truthy_opt_def update_form_def
      or_empty_def Let_def example_store_def example_fields_def del: stringify.simps)

theorem updateForm_frame_witness:
  "updateForm example_store ''f1''
     \<lparr>body_title = None, body_description = None, body_fields = Some example_fields\<rparr>
     = Inl ValidationError
   \<and> \<not> invalid_form \<lparr>body_title = Some ''Members 2027'', body_description = None,
                      body_fields = Some example_fields\<rparr>
   \<and> ''f7'' \<notin> set (map f_id (forms example_store))
   \<and> updateForm example_store ''f7''
       \<lparr>body_title = Some ''Members 2027'', body_description = None,
        body_fields = Some example_fields\<rparr> = Inl NotFound
   \<and> ''f1'' \<in> set (map f_id (forms example_store))
   \<and> (\<exists>st' out.
        updateForm example_store ''f1''
          \<lparr>body_title = Some ''Members 2027'', body_description = None,
           body_fields = Some example_fields\<rparr> = Inr (st', out)
        \<and> map f_id (forms st') = [''f1'', ''f2'', ''f3'']
        \<and> map f_created_at (forms st') = [100, 100, 200]
        \<and> map f_title (forms st') = [''Members 2027'', ''Events'', ''Survey'']
        \<and> forms st' ! 1 = forms example_store ! 1
        \<and> responses st' = responses example_store
        \<and> fm_title out = ''Members 2027'' \<and> fm_fields out = example_fields
        \<and> fm_createdAt out = None)"
proof -
  let ?b = "\<lparr>body_title = Some ''Members 2027'', body_description = None,
             body_fields = Some example_fields\<rparr>"
  let ?bad = "\<lparr>body_title = None, body_description = None, body_fields = Some example_fields\<rparr>"
  have v: "\<not> invalid_form ?b"
    by (simp add: invalid_form_def falsy_str_def truthy_opt_def example_fields_def)
  have bad: "createForm example_store ''f9'' 0 0 ?bad = Inl ValidationError"
    by (simp add: createForm_def invalid_form_def falsy_str_def)
  have n7: "''f7'' \<notin> set (map f_id (forms example_store))"
    and i1: "''f1'' \<in> set (map f_id (forms example_store))"
    by (simp_all add: example_store_def)
  have a: "updateForm example_store ''f1'' ?bad = Inl ValidationError"
    using updateForm_frame [of example_store "''f1''" ?bad "''f9''" 0 0] bad by simp
  have b: "updateForm example_store ''f7'' ?b = Inl NotFound"
    using updateForm_frame [of example_store "''f7''" ?b] v n7 by simp
  obtain st' out where u: "updateForm example_store ''f1'' ?b = Inr (st', out)"
    using updateForm_frame [of example_store "''f1''" ?b] v i1 by blast
  have st': "st' = fst (projr retitled_form)" and out: "out = snd (projr retitled_form)"
    using u by (simp_all add: retitled_form_def)
  obtain t fs where f:
      "map f_id (forms st') = map f_id (forms example_store)"
      "map f_created_at (forms st') = map f_created_at (forms example_store)"
      "\<forall>k < length (forms example_store). f_id (forms example_store ! k) \<noteq> ''f1'' \<longrightarrow>
          forms st' ! k = forms example_store ! k"
      "responses st' = responses example_store"
      "out = \<lparr>fm_id = ''f1'', fm_title = t, fm_description = or_empty (body_description ?b),
              fm_fields = JArr fs, fm_created_at = None, fm_createdAt = None\<rparr>"
      "body_title ?b = Some t" "body_fields ?b = Some (JArr fs)"
    using updateForm_frame [THEN conjunct2, THEN conjunct2, THEN conjunct2, rule_format, OF u]
    by blast
  have k: "(1::nat) < length (forms example_store)" "f_id (forms example_store ! 1) \<noteq> ''f1''"
    by (simp_all add: example_store_def)
  have c: "map f_id (forms st') = [''f1'', ''f2'', ''f3'']
        \<and> map f_created_at (forms st') = [100, 100, 200]
        \<and> forms st' ! 1 = forms example_store ! 1
        \<and> responses st' = responses example_store
        \<and> fm_title out = ''Members 2027'' \<and> fm_fields out = example_fields
        \<and> fm_createdAt out = None"
    using f(1,2,4-7) f(3) [rule_format, OF k]
    by (simp add: example_store_def del: stringify.simps)
  have d: "map f_title (forms st') = [''Members 2027'', ''Events'', ''Survey'']"
    by (simp add: st' retitled_form_value)
  from a v n7 b i1 u c d show ?thesis
    by (intro conjI exI [of _ st'] exI [of _ out]) simp_all
qed

section \<open>Deleting a form\<close>

lemma order_by_desc_Nil: "sorter_ok ord \<Longrightarrow> order_by_desc ord key [] = []"
  using length_order_by_desc [of ord key "[]"] by simp

lemma deleteForm_cascade_enforced:
  assumes "foreign_keys st" and "deleteForm st i = Inr st'" and "sorter_ok (sorter rt)"
  shows "listResponsesForForm rt st' i = Inr []"
proof -
  have n: "0 < length (filter (\<lambda>row. f_id row = i) (forms st))"
    using assms(2) by (auto simp: deleteForm_def delete_form_def Let_def split: if_splits)
  then have "responses st' = filter (\<lambda>row. r_form_id row \<noteq> i) (responses st)"
    using assms by (auto simp: deleteForm_def delete_form_def Let_def split: if_splits)
  then have "filter (\<lambda>row. r_form_id row = i) (responses st') = []"
    by (simp add: filter_empty_conv)
  then show ?thesis
    by (simp add: listResponsesForForm_def select_responses_def order_by_desc_Nil [OF assms(3)])
qed

lemma deleteForm_no_cascade:
  assumes "\<not> foreign_keys st" and "deleteForm st i = Inr st'"
  shows "responses st' = responses st"
  using assms by (auto simp: deleteForm_def delete_form_def Let_def split: if_splits)

lemma cascade_scenario_rows:
  "cascade_scenario rt db_open =
     map_rows response_of_row (order_by_desc (sorter rt) r_submitted_at
       [\<lparr>r_id = ''r1'', r_form_id = ''f1'', r_answers = stringify (JObj [(''name'', JStr ''Bob'')]),
         r_submitter_name = None, r_submitter_email = None, r_submitted_at = 201\<rparr>,
        \<lparr>r_id = ''r2'', r_form_id = ''f1'', r_answers = stringify (JObj []),
         r_submitter_name = None, r_submitter_email = None, r_submitted_at = 202\<rparr>,
        \<lparr>r_id = ''r3'', r_form_id = ''f1'', r_answers = stringify (JArr []),
         r_submitter_name = None, r_submitter_email = None, r_submitted_at = 203\<rparr>])"
  by (simp add: cascade_scenario_def createForm_def invalid_form_def falsy_str_def truthy_opt_def
      example_fields_def insert_form_def db_open_def or_empty_def or_null_def Let_def
      submitResponse_def answers_body_def select_form_def insert_response_def
      deleteForm_def delete_form_def listResponsesForForm_def select_responses_def
      del: stringify.simps)

text \<open>
  Claim C1.  The schema declares \<^verbatim>\<open>ON DELETE CASCADE\<close>, but the connection is opened
  without \<^verbatim>\<open>PRAGMA foreign_keys = ON\<close>, so SQLite does not enforce it.  On the store as
  the server opens it: create a form, submit three responses, delete the form; the listing
  of the responses of the deleted form still returns the three, whatever the engine does
  with rows of equal key.
\<close>

theorem deleteForm_leaves_responses:
  assumes "sorter_ok (sorter rt)"
  shows "map_sum id (map rs_id) (cascade_scenario rt db_open) = Inr [''r3'', ''r2'', ''r1'']"
proof -
  let ?rows =
      "[\<lparr>r_id = ''r1'', r_form_id = ''f1'', r_answers = stringify (JObj [(''name'', JStr ''Bob'')]),
         r_submitter_name = None, r_submitter_email = None, r_submitted_at = 201\<rparr>,
        \<lparr>r_id = ''r2'', r_form_id = ''f1'', r_answers = stringify (JObj []),
         r_submitter_name = None, r_submitter_email = None, r_submitted_at = 202\<rparr>,
        \<lparr>r_id = ''r3'', r_form_id = ''f1'', r_answers = stringify (JArr []),
         r_submitter_name = None, r_submitter_email = None, r_submitted_at = 203\<rparr>]"
  have "order_by_desc (sorter rt) r_submitted_at ?rows
      = order_by_desc stable_sorter r_submitted_at ?rows"
    using assms sorter_ok_stable_sorter by (rule order_by_desc_distinct) simp
  then show ?thesis
    unfolding cascade_scenario_rows
    by (simp add: order_by_desc_def stable_sorter_def response_of_row_def
        parse_example_answers parse_empty_array del: stringify.simps)
qed

theorem deleteForm_leaves_responses_witness:
  "sorter_ok (sorter example_runtime)
   \<and> map_sum id (map rs_id) (cascade_scenario example_runtime db_open) = Inr [''r3'', ''r2'', ''r1'']
   \<and> sorter_ok (sorter reversing_runtime)
   \<and> map_sum id (map rs_id) (cascade_scenario reversing_runtime db_open) = Inr [''r3'', ''r2'', ''r1'']"
  using deleteForm_leaves_responses [of example_runtime]
    deleteForm_leaves_responses [of reversing_runtime]
    sorter_ok_stable_sorter sorter_ok_reversing_sorter
  by (simp add: example_runtime_def reversing_runtime_def)

lemma cascade_scenario_enforced:
  "sorter_ok (sorter rt) \<Longrightarrow> cascade_scenario rt (db_open\<lparr>foreign_keys := True\<rparr>) = Inr []"
  by (simp add: cascade_scenario_def createForm_def invalid_form_def falsy_str_def truthy_opt_def
      example_fields_def insert_form_def db_open_def or_empty_def or_null_def Let_def
      submitResponse_def answers_body_def select_form_def insert_response_def
      deleteForm_def delete_form_def listResponsesForForm_def select_responses_def
      order_by_desc_Nil del: stringify.simps)

section \<open>CSV export\<close>

















lemma export_spec_example:
  \<open>exportResponsesAsCsv example_runtime example_store example_store ''f1'' =
     Inr (''"Submitted At","Name","Email","Name","Tags"'' @ [CHR 0x0A] @
          ''"1/2/2026, 9:30:00 AM","","","",""'' @ [CHR 0x0A] @
          ''"1/1/2026, 10:00:00 AM","Alice","","Alice","a, b"'' @ [CHR 0x0A] @
          ''"1/1/2026, 10:00:00 AM","","bob@example.org","Bob",""'')\<close>
  apply (simp add: exportResponsesAsCsv_def select_form_def select_responses_def example_store_def
      order_by_desc_def example_runtime_def stable_sorter_def parse_example_fields
      del: stringify.simps)
  apply (simp add: example_fields_def header_label_def get_member_def
      export_row_def parse_example_answers parse_empty_array field_cell_def
      array_index_key_def is_digit_def csv_content_def quote_cell_def
      es2023_array_methods_def object_prototype_def
      example_locale_def or_empty_def del: stringify.simps)
  done



lemma falsy_values: "\<not> truthy v \<longleftrightarrow> v \<in> {JStr [], JNum 0, JBool False, JNull}"
  by (cases v) auto



section \<open>Dashboard statistics\<close>

lemma pow2_power_int: "pow2 e = power_int 2 e"
  by (simp add: pow2_def power_int_def field_simps)

lemma pow2_pos: "0 < pow2 e"
  by (simp add: pow2_def)

lemma pow2_add: "pow2 (a + b) = pow2 a * pow2 b"
  by (simp add: pow2_power_int power_int_add)

lemma pow2_diff: "pow2 (a - b) = pow2 a / pow2 b"
  by (simp add: pow2_power_int power_int_diff)

lemma pow2_nat: "0 \<le> e \<Longrightarrow> pow2 e = 2 ^ nat e"
  by (simp add: pow2_def)

lemma pow2_mono: "a \<le> b \<Longrightarrow> pow2 a \<le> pow2 b"
  by (simp add: pow2_power_int power_int_increasing)

lemma pow2_less_imp: "pow2 a < pow2 b \<Longrightarrow> a < b"
  using pow2_mono [of b a] by (cases "a < b") auto

lemma bitlen_rat_bounds:
  assumes "0 < (p::int)"
  shows "pow2 (bitlen p - 1) \<le> of_int p" and "of_int p < pow2 (bitlen p)"
proof -
  have b: "1 \<le> bitlen p"
    using assms bitlen_nonneg [of p] bitlen_eq_zero_iff [of p] by linarith
  from bitlen_bounds [OF assms]
  have "2 ^ nat (bitlen p - 1) \<le> p" and "p < 2 ^ nat (bitlen p)" by simp_all
  then have "(of_int (2 ^ nat (bitlen p - 1)) :: rat) \<le> of_int p"
    and "(of_int p :: rat) < of_int (2 ^ nat (bitlen p))"
    by (simp_all only: of_int_le_iff of_int_less_iff)
  then show "pow2 (bitlen p - 1) \<le> of_int p" and "of_int p < pow2 (bitlen p)"
    using b by (simp_all add: pow2_nat)
qed

lemma floor_log2_bounds:
  assumes "0 < x"
  shows "pow2 (floor_log2 x) \<le> x" and "x < pow2 (floor_log2 x + 1)"
proof -
  obtain p q where pq: "quotient_of x = (p, q)" by (cases "quotient_of x")
  then have q: "0 < q" and x: "x = of_int p / of_int q"
    using quotient_of_denom_pos [OF pq] quotient_of_div [OF pq] by simp_all
  have p: "0 < p"
    using assms q x by (simp add: zero_less_divide_iff)
  let ?d = "bitlen p - bitlen q"
  have lo: "pow2 (?d - 1) \<le> x"
  proof -
    have "pow2 (?d - 1) = pow2 (bitlen p - 1) / pow2 (bitlen q)"
      using pow2_diff [of "bitlen p - 1" "bitlen q"] by (simp add: algebra_simps)
    also have "\<dots> \<le> of_int p / of_int q"
      using bitlen_rat_bounds(1) [OF p] bitlen_rat_bounds(2) [OF q] p q pow2_pos
      by (intro frac_le) simp_all
    finally show ?thesis by (simp add: x)
  qed
  have hi: "x < pow2 (?d + 1)"
  proof -
    have "of_int p / of_int q < pow2 (bitlen p) / pow2 (bitlen q - 1)"
      using bitlen_rat_bounds(2) [OF p] bitlen_rat_bounds(1) [OF q] p q pow2_pos
      by (intro frac_less) simp_all
    also have "\<dots> = pow2 (?d + 1)"
      using pow2_diff [of "bitlen p" "bitlen q - 1"] by (simp add: algebra_simps)
    finally show ?thesis by (simp add: x)
  qed
  have fl: "floor_log2 x = (if pow2 ?d \<le> x then ?d else ?d - 1)"
    by (simp add: floor_log2_def pq Let_def)
  show "pow2 (floor_log2 x) \<le> x"
    using lo by (simp add: fl)
  show "x < pow2 (floor_log2 x + 1)"
    using hi by (auto simp add: fl)
qed

lemma round_half_even_error: "\<bar>of_int (round_half_even z) - z\<bar> \<le> 1 / 2"
proof -
  have "of_int \<lfloor>z\<rfloor> \<le> z" "z < of_int \<lfloor>z\<rfloor> + 1" by linarith+
  then show ?thesis
    by (auto simp: round_half_even_def Let_def abs_le_iff)
qed

lemma round_half_even_int: "round_half_even (of_int k) = k"
  by (simp add: round_half_even_def)

lemma round_half_even_nonneg: "0 \<le> z \<Longrightarrow> 0 \<le> round_half_even z"
  by (auto simp: round_half_even_def Let_def)

lemma to_double_pos:
  assumes "0 < x"
  shows "to_double x = of_int (round_half_even (x / pow2 (floor_log2 x - 52))) * pow2 (floor_log2 x - 52)"
  using assms by (simp add: to_double_def Let_def)

lemma to_double_nonneg: "0 \<le> x \<Longrightarrow> 0 \<le> to_double x"
proof (cases "x = 0")
  case True
  then show ?thesis by (simp add: to_double_def)
next
  case False
  assume "0 \<le> x"
  with False have x: "0 < x" by simp
  have "0 \<le> x / pow2 (floor_log2 x - 52)"
    using x pow2_pos [of "floor_log2 x - 52"] by simp
  then have "0 \<le> round_half_even (x / pow2 (floor_log2 x - 52))"
    by (rule round_half_even_nonneg)
  then show ?thesis
    using pow2_pos [of "floor_log2 x - 52"] by (simp add: to_double_pos [OF x])
qed

lemma to_double_error:
  assumes "0 < x"
  shows "\<bar>to_double x - x\<bar> \<le> x / 2 ^ 53"
proof -
  let ?e = "floor_log2 x - 52"
  let ?z = "x / pow2 ?e"
  have pe: "0 < pow2 ?e" by (rule pow2_pos)
  have "to_double x - x = (of_int (round_half_even ?z) - ?z) * pow2 ?e"
    using pe by (simp add: to_double_pos [OF assms] algebra_simps)
  then have "\<bar>to_double x - x\<bar> = \<bar>of_int (round_half_even ?z) - ?z\<bar> * pow2 ?e"
    using pe by (simp add: abs_mult)
  also have "\<dots> \<le> (1 / 2) * pow2 ?e"
    using round_half_even_error [of ?z] pe by (intro mult_right_mono) simp_all
  also have "\<dots> = pow2 (floor_log2 x) / 2 ^ 53"
  proof -
    have "pow2 ?e = pow2 (floor_log2 x) / pow2 52" by (rule pow2_diff)
    then show ?thesis by (simp add: pow2_def)
  qed
  also have "\<dots> \<le> x / 2 ^ 53"
    using floor_log2_bounds(1) [OF assms] by (simp add: divide_right_mono)
  finally show ?thesis .
qed

lemma to_double_nat_exact:
  assumes "n < 2 ^ 53"
  shows "to_double (of_nat n) = of_nat n"
proof (cases "n = 0")
  case True
  then show ?thesis by (simp add: to_double_def)
next
  case False
  let ?x = "of_nat n :: rat"
  have x: "0 < ?x" using False by simp
  let ?L = "floor_log2 ?x"
  have "pow2 ?L \<le> ?x" by (rule floor_log2_bounds(1) [OF x])
  also have "?x < 2 ^ 53" using assms by (metis of_nat_less_iff of_nat_numeral of_nat_power)
  also have "(2::rat) ^ 53 = pow2 53" by (simp add: pow2_def)
  finally have "?L < 53" by (rule pow2_less_imp)
  then have e: "0 \<le> 52 - ?L" by simp
  have "?x / pow2 (?L - 52) = ?x * pow2 (52 - ?L)"
    using pow2_diff [of 0 "52 - ?L"] by (simp add: pow2_def [of 0] field_simps)
  also have "\<dots> = of_int (int n * 2 ^ nat (52 - ?L))"
    using e by (simp add: pow2_nat)
  finally have z: "?x / pow2 (?L - 52) = of_int (int n * 2 ^ nat (52 - ?L))" .
  have "to_double ?x = of_int (int n * 2 ^ nat (52 - ?L)) * pow2 (?L - 52)"
    by (simp only: to_double_pos [OF x] z round_half_even_int)
  also have "\<dots> = ?x * (pow2 (52 - ?L) * pow2 (?L - 52))"
    using e by (simp add: pow2_nat)
  also have "pow2 (52 - ?L) * pow2 (?L - 52) = 1"
    using pow2_add [of "52 - ?L" "?L - 52"] by (simp add: pow2_def [of 0])
  finally show ?thesis by simp
qed

lemma js_div_error:
  assumes "0 < a" "a < 2 ^ 53" "0 < b" "b < 2 ^ 53"
  shows "\<bar>js_div a b - of_nat a / of_nat b\<bar> \<le> (of_nat a / of_nat b) / 2 ^ 53"
proof -
  have "0 < (of_nat a / of_nat b :: rat)" using assms by simp
  from to_double_error [OF this] show ?thesis
    unfolding js_div_def to_double_nat_exact [OF assms(2)] to_double_nat_exact [OF assms(4)] .
qed

lemma js_div_nonneg: "0 \<le> js_div a b"
  unfolding js_div_def
  by (intro to_double_nonneg divide_nonneg_nonneg) simp_all

lemma toFixed1_nearest:
  assumes "0 \<le> x"
  shows "\<exists>n. toFixed1 x = show_nat (n div 10) @ ''.'' @ show_nat (n mod 10)
           \<and> - 1 / 20 < of_nat n / 10 - x \<and> of_nat n / 10 - x \<le> 1 / 20"
proof -
  let ?n = "nat \<lfloor>x * 10 + 1 / 2\<rfloor>"
  have "0 \<le> \<lfloor>x * 10 + 1 / 2\<rfloor>" using assms by simp
  then have n: "(of_nat ?n :: rat) = of_int \<lfloor>x * 10 + 1 / 2\<rfloor>"
    by (metis of_int_of_nat_eq int_nat_eq)
  have "of_int \<lfloor>x * 10 + 1 / 2\<rfloor> \<le> x * 10 + 1 / 2"
    and "x * 10 + 1 / 2 < of_int \<lfloor>x * 10 + 1 / 2\<rfloor> + 1"
    by linarith+
  then have "- 1 / 20 < of_nat ?n / 10 - x \<and> of_nat ?n / 10 - x \<le> 1 / 20"
    unfolding n by (simp add: field_simps)
  moreover have "toFixed1 x = show_nat (?n div 10) @ ''.'' @ show_nat (?n mod 10)"
    by (simp add: toFixed1_def Let_def)
  ultimately show ?thesis by blast
qed

lemma toFixed1_examples:
  "toFixed1 (js_div 3 20) = ''0.1''"
  "toFixed1 (js_div 5 2) = ''2.5''"
  "toFixed1 (js_div 4 3) = ''1.3''"
  "spec_avgResponsesPerForm 3 20 = ''0.2''"
  by code_simp+

lemma join_forms_fst: "p \<in> set (join_forms st) \<Longrightarrow> fst p \<in> set (responses st)"
  by (auto simp: join_forms_def)

lemma map_rows_exists:
  "(\<And>x. x \<in> set xs \<Longrightarrow> \<exists>y. f x = Inr y) \<Longrightarrow> \<exists>ys. map_rows f xs = Inr ys"
proof (induction xs)
  case Nil
  then show ?case by simp
next
  case (Cons x xs)
  then obtain y ys where "f x = Inr y" "map_rows f xs = Inr ys"
    by (metis list.set_intros(1,2))
  then show ?case by simp
qed

lemma map_rows_take:
  "map_rows f xs = Inr zs \<Longrightarrow> map_rows f (take n xs) = Inr (take n zs)"
proof (induction xs arbitrary: n zs)
  case Nil
  then show ?case by simp
next
  case (Cons x xs)
  then show ?case
    by (cases n) (auto split: sum.splits)
qed

lemma map_rows_length: "map_rows f xs = Inr ys \<Longrightarrow> length ys = length xs"
  using map_rows_Inr [of f xs ys] by (simp add: list_all2_lengthD)

lemma computeDashboardStats_total:
  assumes "sorter_ok (sorter rt)"
    and "\<And>r. r \<in> set (responses st) \<Longrightarrow> is_parsed (JSON_parse (r_answers r))"
  shows "\<exists>s. computeDashboardStats rt st = Inr s"
proof -
  have "\<exists>y. response_of_joined p = Inr y" if "p \<in> set (take 5 (select_joined rt st))" for p
  proof -
    from that have "p \<in> set (join_forms st)"
      using set_take_subset [of 5 "select_joined rt st"]
      by (auto simp: select_joined_def set_order_by_desc [OF assms(1)])
    then have "is_parsed (JSON_parse (r_answers (fst p)))"
      using assms(2) join_forms_fst by blast
    then show ?thesis
      by (cases "JSON_parse (r_answers (fst p))")
         (simp_all add: response_of_joined_def parse_column_def)
  qed
  then obtain ys where "map_rows response_of_joined (take 5 (select_joined rt st)) = Inr ys"
    using map_rows_exists by blast
  then show ?thesis by (simp add: computeDashboardStats_def)
qed

lemma computeDashboardStats_Inr:
  assumes "computeDashboardStats rt st = Inr s"
  shows "totalForms s = length (forms st)" and "totalResponses s = length (responses st)"
    and "avgResponsesPerForm s =
      (if 0 < length (forms st) then toFixed1 (js_div (length (responses st)) (length (forms st)))
       else ''0'')"
    and "map_rows response_of_joined (take 5 (select_joined rt st)) = Inr (recentResponses s)"
  using assms by (auto simp: computeDashboardStats_def split: sum.splits)

lemma computeDashboardStats_props:
  assumes "computeDashboardStats rt st = Inr s"
  shows "totalForms s = length (forms st) \<and> totalResponses s = length (responses st)
    \<and> (totalForms s = 0 \<longrightarrow> avgResponsesPerForm s = ''0'')
    \<and> (0 < totalForms s \<longrightarrow>
         (\<exists>n. avgResponsesPerForm s = show_nat (n div 10) @ ''.'' @ show_nat (n mod 10)
            \<and> - 1 / 20 < of_nat n / 10 - js_div (totalResponses s) (totalForms s)
            \<and> of_nat n / 10 - js_div (totalResponses s) (totalForms s) \<le> 1 / 20))
    \<and> (0 < totalForms s \<and> totalForms s < 2 ^ 53
        \<and> 0 < totalResponses s \<and> totalResponses s < 2 ^ 53 \<longrightarrow>
         \<bar>js_div (totalResponses s) (totalForms s)
            - of_nat (totalResponses s) / of_nat (totalForms s)\<bar>
           \<le> (of_nat (totalResponses s) / of_nat (totalForms s)) / 2 ^ 53)
    \<and> (totalForms s = 2 \<and> totalResponses s = 5 \<longrightarrow> avgResponsesPerForm s = ''2.5'')
    \<and> length (recentResponses s) \<le> 5
    \<and> (sorter_ok (sorter rt) \<longrightarrow>
         sorted_wrt (\<lambda>a b. rs_submittedAt b \<le> rs_submittedAt a) (recentResponses s))
    \<and> (listAllResponses rt st = Inr as \<longrightarrow> recentResponses s = take 5 as)"
proof -
  note v = computeDashboardStats_Inr [OF assms]
  have 1: "totalForms s = length (forms st)" "totalResponses s = length (responses st)"
    by (rule v)+
  have 2: "avgResponsesPerForm s = ''0''" if "totalForms s = 0"
    using that by (simp add: v)
  have a: "avgResponsesPerForm s = toFixed1 (js_div (totalResponses s) (totalForms s))"
    if "0 < totalForms s"
    using that by (simp add: v)
  have 3: "\<exists>n. avgResponsesPerForm s = show_nat (n div 10) @ ''.'' @ show_nat (n mod 10)
            \<and> - 1 / 20 < of_nat n / 10 - js_div (totalResponses s) (totalForms s)
            \<and> of_nat n / 10 - js_div (totalResponses s) (totalForms s) \<le> 1 / 20"
    if p: "0 < totalForms s"
    unfolding a [OF p] by (rule toFixed1_nearest) (rule js_div_nonneg)
  have 4: "\<bar>js_div (totalResponses s) (totalForms s)
            - of_nat (totalResponses s) / of_nat (totalForms s)\<bar>
           \<le> (of_nat (totalResponses s) / of_nat (totalForms s)) / 2 ^ 53"
    if "0 < totalForms s \<and> totalForms s < 2 ^ 53 \<and> 0 < totalResponses s \<and> totalResponses s < 2 ^ 53"
    using that by (intro js_div_error) simp_all
  have 5: "avgResponsesPerForm s = ''2.5''" if "totalForms s = 2 \<and> totalResponses s = 5"
    using that a by (simp add: toFixed1_examples)
  have "length (recentResponses s) = length (take 5 (select_joined rt st))"
    using v(4) by (rule map_rows_length)
  then have 6: "length (recentResponses s) \<le> 5" by simp
  have 7: "sorted_wrt (\<lambda>a b. rs_submittedAt b \<le> rs_submittedAt a) (recentResponses s)"
    if "sorter_ok (sorter rt)"
    using that v(4) by (rule select_joined_order(2))
  have 8: "recentResponses s = take 5 as" if "listAllResponses rt st = Inr as"
  proof -
    from that have "map_rows response_of_joined (take 5 (select_joined rt st)) = Inr (take 5 as)"
      unfolding listAllResponses_def by (rule map_rows_take)
    with v(4) show ?thesis by simp
  qed
  from 1 2 3 4 5 6 7 8 show ?thesis by blast
qed

lemma count_store_stats:
  assumes "sorter_ok (sorter rt)"
  shows "\<exists>s. computeDashboardStats rt (count_store nf nr) = Inr s"
  using assms
proof (rule computeDashboardStats_total)
  fix r assume "r \<in> set (responses (count_store nf nr))"
  then have "r_answers r = stringify (JObj [])"
    by (auto simp: count_store_def simp del: stringify.simps)
  then show "is_parsed (JSON_parse (r_answers r))"
    by (simp add: JSON_parse_stringify del: stringify.simps)
qed

section \<open>The stores that the API can reach\<close>

lemma createForm_Inr:
  assumes "createForm st newId now jsnow body = Inr (st', out)"
  shows "\<exists>t xs. body_title body = Some t \<and> t \<noteq> [] \<and> body_fields body = Some (JArr xs)
           \<and> newId \<notin> set (map f_id (forms st))
           \<and> st' = st\<lparr>forms := forms st @ [\<lparr>f_id = newId, f_title = t,
                  f_description = or_empty (body_description body),
                  f_fields = stringify (JArr xs), f_created_at = now\<rparr>]\<rparr>"
proof -
  have "\<not> invalid_form body"
    using assms createForm_ValidationError_iff [of st newId now jsnow body] by auto
  then obtain t xs where b: "body_title body = Some t" "t \<noteq> []" "body_fields body = Some (JArr xs)"
    by (cases "body_title body") (auto simp: invalid_form_iff isArray_iff)
  have n: "newId \<notin> set (map f_id (forms st))"
  proof
    assume "newId \<in> set (map f_id (forms st))"
    then have "createForm st newId now jsnow body = Inl StoreError"
      using b by (simp add: createForm_def invalid_form_iff insert_form_def Let_def
          del: stringify.simps)
    with assms show False by simp
  qed
  from createForm_valid [OF b n, of now jsnow] assms b n show ?thesis by simp
qed

lemma store_inv_open: "store_inv db_open"
  by (simp add: store_inv_def db_open_def)

lemma store_inv_created:
  assumes "store_inv st" "wf_form_body body" "createForm st newId now jsnow body = Inr (st', out)"
  shows "store_inv st'"
proof -
  obtain t xs where b: "body_fields body = Some (JArr xs)"
      "newId \<notin> set (map f_id (forms st))"
      "st' = st\<lparr>forms := forms st @ [\<lparr>f_id = newId, f_title = t,
                  f_description = or_empty (body_description body),
                  f_fields = stringify (JArr xs), f_created_at = now\<rparr>]\<rparr>"
    using createForm_Inr [OF assms(3)] by blast
  have "wf_json (JArr xs)" using assms(2) b(1) by (simp add: wf_form_body_def)
  then have "is_parsed (JSON_parse (stringify (JArr xs)))"
    by (simp add: JSON_parse_stringify del: stringify.simps)
  with assms(1) b(2) show ?thesis
    unfolding b(3) store_inv_def by (simp del: stringify.simps)
qed

lemma store_inv_updated:
  assumes "store_inv st" "wf_form_body body" "updateForm st i body = Inr (st', out)"
  shows "store_inv st'"
proof -
  obtain t xs where b: "body_title body = Some t" "t \<noteq> []" "body_fields body = Some (JArr xs)"
    using updateForm_Inr(1) [OF assms(3)] by blast
  let ?g = "\<lambda>row. if f_id row = i
                      then row\<lparr>f_title := t, f_description := or_empty (body_description body),
                               f_fields := stringify (JArr xs)\<rparr>
                      else row"
  have st': "st' = st\<lparr>forms := map ?g (forms st)\<rparr>"
    using updateForm_valid [OF b, of st i] assms(3) updateForm_Inr(2) [OF assms(3)] by simp
  have "wf_json (JArr xs)" using assms(2) b(3) by (simp add: wf_form_body_def)
  then have p: "is_parsed (JSON_parse (stringify (JArr xs)))"
    by (simp add: JSON_parse_stringify del: stringify.simps)
  have fs: "forms st' = map ?g (forms st)" and rs: "responses st' = responses st"
    and fk: "foreign_keys st' = foreign_keys st"
    by (simp_all add: st')
  have ids: "map f_id (forms st') = map f_id (forms st)"
    unfolding fs by (rule map_id_update) simp
  have texts: "list_all (\<lambda>row. is_parsed (JSON_parse (f_fields row))) (forms st')"
    unfolding fs using assms(1) p
    by (auto simp: store_inv_def list_all_iff simp del: stringify.simps)
  have i: "distinct (map f_id (forms st))" "distinct (map r_id (responses st))"
    "list_all (\<lambda>row. is_parsed (JSON_parse (r_answers row))) (responses st)"
    "\<not> foreign_keys st"
    using assms(1) by (simp_all add: store_inv_def)
  show ?thesis
    unfolding store_inv_def
  proof (intro conjI)
    show "distinct (map f_id (forms st'))"
      unfolding ids by (rule i(1))
    show "distinct (map r_id (responses st'))"
      unfolding rs by (rule i(2))
    show "list_all (\<lambda>row. is_parsed (JSON_parse (f_fields row))) (forms st')"
      by (rule texts)
    show "list_all (\<lambda>row. is_parsed (JSON_parse (r_answers row))) (responses st')"
      unfolding rs by (rule i(3))
    show "\<not> foreign_keys st'"
      unfolding fk by (rule i(4))
  qed
qed

lemma store_inv_deleted:
  assumes "store_inv st" "deleteForm st i = Inr st'"
  shows "store_inv st'"
proof -
  have "forms st' = filter (\<lambda>row. f_id row \<noteq> i) (forms st)" "responses st' = responses st"
    "foreign_keys st' = foreign_keys st"
    using assms by (auto simp: deleteForm_def delete_form_def Let_def store_inv_def split: if_splits)
  with assms(1) show ?thesis
    by (auto simp: store_inv_def list_all_iff distinct_map_filter)
qed

lemma store_inv_submitted:
  assumes "store_inv st'" "wf_response_body body"
    and "submitResponse st st' responseId now jsnow formId body = Inr (st'', res)"
  shows "store_inv st''"
proof -
  obtain a where a: "body_answers body = Some a" "truthy_opt (Some a)" "typeof (Some a) = TObject"
    using submitResponse_Inr(3) [OF assms(3)] by blast
  have f: "select_form st formId \<noteq> None"
    using submitResponse_Inr(1) [OF assms(3)] by (simp add: select_form_None_iff)
  have r: "responseId \<notin> set (map r_id (responses st'))"
    by (rule submitResponse_Inr(2) [OF assms(3)])
  have k: "\<not> foreign_keys st' \<or> formId \<in> set (map f_id (forms st'))"
    by (rule submitResponse_Inr(4) [OF assms(3)])
  have st'': "st'' = st'\<lparr>responses := responses st' @
            [\<lparr>r_id = responseId, r_form_id = formId, r_answers = stringify a,
              r_submitter_name = or_null (body_submitterName body),
              r_submitter_email = or_null (body_submitterEmail body),
              r_submitted_at = now\<rparr>]\<rparr>"
    using submitResponse_stored [OF a f r k, of now jsnow] assms(3) by simp
  have "wf_json a" using assms(2) a(1) by (simp add: wf_response_body_def)
  then have "is_parsed (JSON_parse (stringify a))" by (simp add: JSON_parse_stringify)
  with assms(1) r show ?thesis
    unfolding st'' store_inv_def by (simp del: stringify.simps)
qed

lemma reaches_inv: "reaches st0 st \<Longrightarrow> store_inv st0 \<Longrightarrow> store_inv st"
proof (induction rule: reaches.induct)
  case (same st)
  then show ?case .
next
  case (created st0 st body newId now jsnow st' out)
  then show ?case using store_inv_created by blast
next
  case (updated st0 st body i st' out)
  then show ?case using store_inv_updated by blast
next
  case (deleted st0 st i st')
  then show ?case using store_inv_deleted by blast
next
  case (submitted st0 st1 st2 body responseId now jsnow formId st3 res)
  then show ?case using store_inv_submitted by blast
qed

lemma reachable_inv: "reachable st \<Longrightarrow> store_inv st"
  unfolding reachable_def using reaches_inv store_inv_open by blast

lemma reachable_opened: "reachable db_open"
  unfolding reachable_def by (rule reaches.same)

lemma reachable_created:
  "reachable st \<Longrightarrow> wf_form_body body
     \<Longrightarrow> createForm st newId now jsnow body = Inr (st', out) \<Longrightarrow> reachable st'"
  unfolding reachable_def by (rule reaches.created)

lemma reachable_deleted: "reachable st \<Longrightarrow> deleteForm st i = Inr st' \<Longrightarrow> reachable st'"
  unfolding reachable_def by (rule reaches.deleted)

lemma reachable_submitted:
  "reachable st \<Longrightarrow> wf_response_body body
     \<Longrightarrow> submitResponse st st responseId now jsnow formId body = Inr (st', res)
     \<Longrightarrow> reachable st'"
  unfolding reachable_def by (rule reaches.submitted [OF _ reaches.same])

lemma is_parsed_column: "is_parsed (JSON_parse s) \<Longrightarrow> \<exists>v. parse_column s = Inr v"
  by (cases "JSON_parse s") (simp_all add: parse_column_def)



lemma store_inv_listAllResponses:
  assumes "store_inv st" and "sorter_ok (sorter rt)"
  shows "\<exists>rs. listAllResponses rt st = Inr rs"
  unfolding listAllResponses_def
proof (rule map_rows_exists)
  fix p assume "p \<in> set (select_joined rt st)"
  then have "fst p \<in> set (responses st)"
    by (simp add: select_joined_def set_order_by_desc [OF assms(2)] join_forms_fst)
  then have "is_parsed (JSON_parse (r_answers (fst p)))"
    using assms by (simp add: store_inv_def list_all_iff)
  then show "\<exists>y. response_of_joined p = Inr y"
    using is_parsed_column [of "r_answers (fst p)"] by (auto simp: response_of_joined_def)
qed

lemma store_inv_computeDashboardStats:
  assumes "store_inv st" and "sorter_ok (sorter rt)"
  shows "\<exists>s. computeDashboardStats rt st = Inr s"
  using assms by (intro computeDashboardStats_total) (simp_all add: store_inv_def list_all_iff)

lemma reachable_add_form:
  assumes "reachable st" and "t \<noteq> []" and "wf_json (JArr xs)"
    and "newId \<notin> set (map f_id (forms st))"
  shows "reachable (st\<lparr>forms := forms st @
           [\<lparr>f_id = newId, f_title = t, f_description = d,
             f_fields = stringify (JArr xs), f_created_at = now\<rparr>]\<rparr>)"
proof -
  let ?body = "\<lparr>body_title = Some t, body_description = Some d, body_fields = Some (JArr xs)\<rparr>"
  have "wf_form_body ?body" using assms(3) by (simp add: wf_form_body_def)
  moreover have "createForm st newId now now ?body =
      Inr (st\<lparr>forms := forms st @
           [\<lparr>f_id = newId, f_title = t, f_description = d,
             f_fields = stringify (JArr xs), f_created_at = now\<rparr>]\<rparr>,
           \<lparr>fm_id = newId, fm_title = t, fm_description = d, fm_fields = JArr xs,
            fm_created_at = None, fm_createdAt = Some now\<rparr>)"
    using createForm_valid [of ?body t xs newId st now now] assms(2,4)
    by (simp add: or_empty_def)
  ultimately show ?thesis using assms(1) by (rule reachable_created [rotated])
qed

lemma reachable_add_response:
  assumes "reachable st" and "wf_json a" and "truthy a" and "typeof (Some a) = TObject"
    and "formId \<in> set (map f_id (forms st))"
    and "responseId \<notin> set (map r_id (responses st))"
    and "name \<noteq> Some []" and "email \<noteq> Some []"
  shows "reachable (st\<lparr>responses := responses st @
           [\<lparr>r_id = responseId, r_form_id = formId, r_answers = stringify a,
             r_submitter_name = name, r_submitter_email = email,
             r_submitted_at = now\<rparr>]\<rparr>)"
proof -
  let ?body = "\<lparr>body_answers = Some a, body_submitterName = name, body_submitterEmail = email\<rparr>"
  have w: "wf_response_body ?body" using assms(2) by (simp add: wf_response_body_def)
  have f: "select_form st formId \<noteq> None"
    using assms(5) by (simp add: select_form_None_iff)
  have n: "or_null name = name" "or_null email = email"
    using assms(7,8) by (auto simp: or_null_def falsy_str_def)
  have "submitResponse st st responseId now now formId ?body =
      Inr (st\<lparr>responses := responses st @
           [\<lparr>r_id = responseId, r_form_id = formId, r_answers = stringify a,
             r_submitter_name = name, r_submitter_email = email,
             r_submitted_at = now\<rparr>]\<rparr>,
           \<lparr>rs_id = responseId, rs_formId = formId, rs_formTitle = None, rs_answers = a,
            rs_submitterName = name, rs_submitterEmail = email, rs_submittedAt = now\<rparr>)"
    using submitResponse_stored [of ?body a st formId responseId st now now] assms(3,4,5,6) f
    by (simp add: truthy_opt_def n)
  with assms(1) w show ?thesis by (rule reachable_submitted)
qed

lemma reachable_example_store: "reachable example_store"
proof -
  let ?f1 = "\<lparr>f_id = ''f1'', f_title = ''Members'', f_description = [],
          f_fields = stringify example_fields, f_created_at = 100\<rparr>"
  let ?f2 = "\<lparr>f_id = ''f2'', f_title = ''Events'', f_description = ''2026'',
          f_fields = stringify (JArr []), f_created_at = 100\<rparr>"
  let ?f3 = "\<lparr>f_id = ''f3'', f_title = ''Survey'', f_description = [],
          f_fields = stringify (JArr []), f_created_at = 200\<rparr>"
  let ?r1 = "\<lparr>r_id = ''r1'', r_form_id = ''f1'',
          r_answers = stringify (JObj [(''name'', JStr ''Alice''),
                                       (''tags'', JArr [JStr ''a'', JStr ''b''])]),
          r_submitter_name = Some ''Alice'', r_submitter_email = None, r_submitted_at = 300\<rparr>"
  let ?r2 = "\<lparr>r_id = ''r2'', r_form_id = ''f1'',
          r_answers = stringify (JObj [(''name'', JStr ''Bob'')]),
          r_submitter_name = None, r_submitter_email = Some ''bob@example.org'',
          r_submitted_at = 300\<rparr>"
  let ?r3 = "\<lparr>r_id = ''r3'', r_form_id = ''f2'', r_answers = stringify (JObj []),
          r_submitter_name = None, r_submitter_email = None, r_submitted_at = 350\<rparr>"
  let ?r4 = "\<lparr>r_id = ''r4'', r_form_id = ''f1'', r_answers = stringify (JArr []),
          r_submitter_name = None, r_submitter_email = None, r_submitted_at = 400\<rparr>"
  let ?s = "\<lambda>fs rs. \<lparr>forms = fs, responses = rs, foreign_keys = False\<rparr>"
  have w: "wf_json example_fields" by (rule wf_example_fields)
  have e: "example_fields = JArr [JObj [(''id'', JStr ''name''), (''label'', JStr ''Name'')],
           JObj [(''id'', JStr ''tags''), (''label'', JStr ''Tags'')]]"
    by (simp add: example_fields_def)
  have 1: "reachable (?s [?f1] [])"
    using reachable_add_form [OF reachable_opened, of "''Members''" _ "''f1''" "[]" 100] w
    unfolding e by (simp add: db_open_def del: stringify.simps)
  have 2: "reachable (?s [?f1, ?f2] [])"
    using reachable_add_form [OF 1, of "''Events''" "[]" "''f2''" "''2026''" 100]
    by (simp del: stringify.simps)
  have 3: "reachable (?s [?f1, ?f2, ?f3] [])"
    using reachable_add_form [OF 2, of "''Survey''" "[]" "''f3''" "[]" 200]
    by (simp del: stringify.simps)
  have 4: "reachable (?s [?f1, ?f2, ?f3] [?r1])"
    using reachable_add_response [OF 3, of "JObj [(''name'', JStr ''Alice''),
        (''tags'', JArr [JStr ''a'', JStr ''b''])]" "''f1''" "''r1''" "Some ''Alice''" None 300]
    by (simp add: array_index_key_def is_digit_def del: stringify.simps)
  have 5: "reachable (?s [?f1, ?f2, ?f3] [?r1, ?r2])"
    using reachable_add_response [OF 4, of "JObj [(''name'', JStr ''Bob'')]" "''f1''" "''r2''"
        None "Some ''bob@example.org''" 300]
    by (simp add: array_index_key_def is_digit_def del: stringify.simps)
  have 6: "reachable (?s [?f1, ?f2, ?f3] [?r1, ?r2, ?r3])"
    using reachable_add_response [OF 5, of "JObj []" "''f2''" "''r3''" None None 350]
    by (simp del: stringify.simps)
  have 7: "reachable (?s [?f1, ?f2, ?f3] [?r1, ?r2, ?r3, ?r4])"
    using reachable_add_response [OF 6, of "JArr []" "''f1''" "''r4''" None None 400]
    by (simp del: stringify.simps)
  then show ?thesis by (simp add: example_store_def del: stringify.simps)
qed

lemma count_store_Suc_forms:
  "count_store (Suc nf) nr = (count_store nf nr)\<lparr>forms := forms (count_store nf nr) @
     [\<lparr>f_id = replicate (Suc nf) (CHR ''f''), f_title = ''Form'', f_description = [],
       f_fields = stringify (JArr []), f_created_at = 100 + nf\<rparr>]\<rparr>"
  by (simp add: count_store_def del: stringify.simps)

lemma count_store_Suc_responses:
  "count_store nf (Suc nr) = (count_store nf nr)\<lparr>responses := responses (count_store nf nr) @
     [\<lparr>r_id = replicate (Suc nr) (CHR ''r''), r_form_id = ''f'', r_answers = stringify (JObj []),
       r_submitter_name = None, r_submitter_email = None, r_submitted_at = 200 + nr\<rparr>]\<rparr>"
  by (simp add: count_store_def del: stringify.simps)

lemma replicate_fresh: "replicate (Suc n) c \<notin> (\<lambda>k. replicate (Suc k) c) ` {0..<n}"
proof
  assume "replicate (Suc n) c \<in> (\<lambda>k. replicate (Suc k) c) ` {0..<n}"
  then obtain k where "k < n" "replicate (Suc n) c = replicate (Suc k) c" by auto
  then have "length (replicate (Suc n) c) = length (replicate (Suc k) c)" by simp
  with \<open>k < n\<close> show False by simp
qed

lemma reachable_count_store_forms: "reachable (count_store nf 0)"
proof (induction nf)
  case 0
  have "count_store 0 0 = db_open" by (simp add: count_store_def db_open_def)
  then show ?case by (simp add: reachable_opened)
next
  case (Suc nf)
  have "replicate (Suc nf) (CHR ''f'') \<notin> set (map f_id (forms (count_store nf 0)))"
    using replicate_fresh [of nf "CHR ''f''"] by (simp add: count_store_def comp_def)
  from reachable_add_form [OF Suc.IH _ _ this, of "''Form''" "[]" "[]" "100 + nf"]
  show ?case by (simp add: count_store_Suc_forms del: stringify.simps)
qed

lemma reachable_count_store: "0 < nf \<Longrightarrow> reachable (count_store nf nr)"
proof (induction nr)
  case 0
  show ?case by (rule reachable_count_store_forms)
next
  case (Suc nr)
  have f: "''f'' \<in> set (map f_id (forms (count_store nf nr)))"
  proof -
    from Suc.prems have "0 \<in> {0..<nf}" by simp
    then have "replicate (Suc 0) (CHR ''f'') \<in> (\<lambda>k. replicate (Suc k) (CHR ''f'')) ` {0..<nf}"
      by (rule imageI)
    then show ?thesis by (simp add: count_store_def comp_def)
  qed
  have r: "replicate (Suc nr) (CHR ''r'') \<notin> set (map r_id (responses (count_store nf nr)))"
    using replicate_fresh [of nr "CHR ''r''"] by (simp add: count_store_def comp_def)
  from reachable_add_response [OF Suc.IH [OF Suc.prems] _ _ _ f r, of "JObj []" None None "200 + nr"]
  show ?case by (simp add: count_store_Suc_responses del: stringify.simps)
qed

lemma reachable_count_store_orphans: "reachable (count_store 0 nr)"
proof -
  have "deleteForm (count_store 1 nr) ''f'' = Inr (count_store 0 nr)"
    by (simp add: deleteForm_def delete_form_def count_store_def Let_def del: stringify.simps)
  with reachable_count_store [of 1 nr] show ?thesis
    by (auto intro: reachable_deleted)
qed

section \<open>The listings and the statistics on reachable stores\<close>



text \<open>
  Claim C2, as the code has it.  The statistics count the forms and the responses.  The
  average is \<^verbatim>\<open>"0"\<close> when there is no form; otherwise it is the quotient of the two counts
  as JavaScript computes it, a double within a relative error of \<open>2\<^sup>-\<^sup>5\<^sup>3\<close> of the exact
  quotient, rounded to the nearest tenth (a half of that double rounds up) and written with
  one decimal.  Two forms and five responses give \<^verbatim>\<open>"2.5"\<close>.  The recent responses are at
  most five, newest first: the first five of \<open>listAllResponses\<close>.  On every store that the
  API can reach the statistics are returned.
\<close>

theorem computeDashboardStats_values:
  "(computeDashboardStats rt st = Inr s \<longrightarrow>
      totalForms s = length (forms st) \<and> totalResponses s = length (responses st)
    \<and> (totalForms s = 0 \<longrightarrow> avgResponsesPerForm s = ''0'')
    \<and> (0 < totalForms s \<longrightarrow>
         (\<exists>n. avgResponsesPerForm s = show_nat (n div 10) @ ''.'' @ show_nat (n mod 10)
            \<and> - 1 / 20 < of_nat n / 10 - js_div (totalResponses s) (totalForms s)
            \<and> of_nat n / 10 - js_div (totalResponses s) (totalForms s) \<le> 1 / 20))
    \<and> (0 < totalForms s \<and> totalForms s < 2 ^ 53
        \<and> 0 < totalResponses s \<and> totalResponses s < 2 ^ 53 \<longrightarrow>
         \<bar>js_div (totalResponses s) (totalForms s)
            - of_nat (totalResponses s) / of_nat (totalForms s)\<bar>
           \<le> (of_nat (totalResponses s) / of_nat (totalForms s)) / 2 ^ 53)
    \<and> (totalForms s = 2 \<and> totalResponses s = 5 \<longrightarrow> avgResponsesPerForm s = ''2.5'')
    \<and> length (recentResponses s) \<le> 5
    \<and> (sorter_ok (sorter rt) \<longrightarrow>
         sorted_wrt (\<lambda>a b. rs_submittedAt b \<le> rs_submittedAt a) (recentResponses s))
    \<and> (listAllResponses rt st = Inr as \<longrightarrow> recentResponses s = take 5 as))
   \<and> (reachable st \<and> sorter_ok (sorter rt) \<longrightarrow>
        (\<exists>s' as'. computeDashboardStats rt st = Inr s' \<and> listAllResponses rt st = Inr as'
           \<and> recentResponses s' = take 5 as'))"
proof -
  have r: "\<exists>s' as'. computeDashboardStats rt st = Inr s' \<and> listAllResponses rt st = Inr as'
           \<and> recentResponses s' = take 5 as'" if "reachable st" and k: "sorter_ok (sorter rt)"
  proof -
    from that have inv: "store_inv st" by (simp add: reachable_inv)
    obtain s' where s': "computeDashboardStats rt st = Inr s'"
      using store_inv_computeDashboardStats [OF inv k] by blast
    obtain as' where as': "listAllResponses rt st = Inr as'"
      using store_inv_listAllResponses [OF inv k] by blast
    from computeDashboardStats_props [OF s', of as'] as'
    have "recentResponses s' = take 5 as'"
      by blast
    with s' as' show ?thesis by blast
  qed
  show ?thesis
    using computeDashboardStats_props [of rt st s as] r by blast
qed

theorem computeDashboardStats_values_witness:
  "sorter_ok (sorter example_runtime)
   \<and> reachable (count_store 2 5)
   \<and> \<not> isl (computeDashboardStats example_runtime (count_store 2 5))
   \<and> totalForms (projr (computeDashboardStats example_runtime (count_store 2 5))) = 2
   \<and> totalResponses (projr (computeDashboardStats example_runtime (count_store 2 5))) = 5
   \<and> avgResponsesPerForm (projr (computeDashboardStats example_runtime (count_store 2 5))) = ''2.5''
   \<and> \<bar>js_div 5 2 - 5 / 2\<bar> \<le> (5 / 2) / 2 ^ 53
   \<and> length (recentResponses (projr (computeDashboardStats example_runtime (count_store 2 5)))) \<le> 5
   \<and> sorted_wrt (\<lambda>a b. rs_submittedAt b \<le> rs_submittedAt a)
        (recentResponses (projr (computeDashboardStats example_runtime (count_store 2 5))))
   \<and> \<not> isl (listAllResponses example_runtime (count_store 2 5))
   \<and> recentResponses (projr (computeDashboardStats example_runtime (count_store 2 5))) =
       take 5 (projr (listAllResponses example_runtime (count_store 2 5)))
   \<and> reachable (count_store 0 3)
   \<and> \<not> isl (computeDashboardStats example_runtime (count_store 0 3))
   \<and> avgResponsesPerForm (projr (computeDashboardStats example_runtime (count_store 0 3))) = ''0''"
proof -
  have k: "sorter_ok (sorter example_runtime)"
    by (simp add: example_runtime_def sorter_ok_stable_sorter)
  have r2: "reachable (count_store 2 5)" by (rule reachable_count_store) simp
  have r0: "reachable (count_store 0 3)" by (rule reachable_count_store_orphans)
  obtain s as where s: "computeDashboardStats example_runtime (count_store 2 5) = Inr s"
    and la: "listAllResponses example_runtime (count_store 2 5) = Inr as"
    and rc: "recentResponses s = take 5 as"
    using computeDashboardStats_values [of example_runtime "count_store 2 5"] r2 k by blast
  obtain z where z: "computeDashboardStats example_runtime (count_store 0 3) = Inr z"
    using computeDashboardStats_values [of example_runtime "count_store 0 3"] r0 k by blast
  have n: "length (forms (count_store 2 5)) = 2" "length (responses (count_store 2 5)) = 5"
    "length (forms (count_store 0 3)) = 0"
    by (simp_all add: count_store_def)
  note S = computeDashboardStats_values [of example_runtime "count_store 2 5" s "[]",
      THEN conjunct1, rule_format, OF s]
  note Z = computeDashboardStats_values [of example_runtime "count_store 0 3" z "[]",
      THEN conjunct1, rule_format, OF z]
  from S n have c: "totalForms s = 2" "totalResponses s = 5" by simp_all
  from S c have a: "avgResponsesPerForm s = ''2.5''" by blast
  from S have e: "0 < totalForms s \<and> totalForms s < 2 ^ 53
        \<and> 0 < totalResponses s \<and> totalResponses s < 2 ^ 53 \<longrightarrow>
         \<bar>js_div (totalResponses s) (totalForms s)
            - of_nat (totalResponses s) / of_nat (totalForms s)\<bar>
           \<le> (of_nat (totalResponses s) / of_nat (totalForms s)) / 2 ^ 53"
    by blast
  have e': "\<bar>js_div 5 2 - 5 / 2\<bar> \<le> (5 / 2) / 2 ^ 53"
    using e unfolding c by simp
  from S k have r: "length (recentResponses s) \<le> 5"
    "sorted_wrt (\<lambda>a b. rs_submittedAt b \<le> rs_submittedAt a) (recentResponses s)"
    by blast+
  from Z n have "totalForms z = 0" by simp
  with Z have z0: "avgResponsesPerForm z = ''0''" by blast
  from k r2 r0 c a e' r z0 rc show ?thesis
    by (simp add: s z la)
qed

section \<open>Where the code departs from the claims as they are written\<close>


text \<open>
  The claim as it is written says that a submission never succeeds against a form that
  does not exist, and that the answer is the stored response.  The form \<^verbatim>\<open>f2\<close> is deleted
  after the handler's \<^verbatim>\<open>SELECT\<close> has found it: the \<^verbatim>\<open>INSERT\<close> succeeds all the same, and the
  store that results, which the API has reached, holds the response \<^verbatim>\<open>r9\<close> of a form that
  it does not hold.  And with no request in between: a submitter name that is the empty
  string is stored as \<^verbatim>\<open>null\<close> and answered as the empty string, so the answer differs from
  the response \<^verbatim>\<open>r9\<close> read back from the store.
\<close>

theorem submitResponse_counterexample:
  "reachable example_store
   \<and> deleteForm example_store ''f2'' = Inr store_without_f2
   \<and> ''f2'' \<notin> set (map f_id (forms store_without_f2))
   \<and> \<not> isl late_submission
   \<and> reachable (fst (projr late_submission))
   \<and> ''f2'' \<notin> set (map f_id (forms (fst (projr late_submission))))
   \<and> r_id (last (responses (fst (projr late_submission)))) = ''r9''
   \<and> r_form_id (last (responses (fst (projr late_submission)))) = ''f2''
   \<and> \<not> isl blank_name_submission
   \<and> rs_id (snd (projr blank_name_submission)) = ''r9''
   \<and> rs_submitterName (snd (projr blank_name_submission)) = Some []
   \<and> rs_id (hd (projr (listResponsesForForm example_runtime
                          (fst (projr blank_name_submission)) ''f2''))) = ''r9''
   \<and> rs_submitterName
        (hd (projr (listResponsesForForm example_runtime
                      (fst (projr blank_name_submission)) ''f2''))) = None
   \<and> snd (projr blank_name_submission) \<noteq>
       hd (projr (listResponsesForForm example_runtime
                    (fst (projr blank_name_submission)) ''f2''))"
proof -
  have l: "listResponsesForForm example_runtime (fst (projr blank_name_submission)) ''f2'' =
    Inr [\<lparr>rs_id = ''r9'', rs_formId = ''f2'', rs_formTitle = None, rs_answers = JObj [],
          rs_submitterName = None, rs_submitterEmail = None, rs_submittedAt = 500\<rparr>,
         \<lparr>rs_id = ''r3'', rs_formId = ''f2'', rs_formTitle = None, rs_answers = JObj [],
          rs_submitterName = None, rs_submitterEmail = None, rs_submittedAt = 350\<rparr>]"
    by (simp add: blank_name_submission_value listResponsesForForm_def select_responses_def
        example_store_def order_by_desc_def example_runtime_def stable_sorter_def
        response_of_row_def parse_example_answers del: stringify.simps)
  have w: "wf_response_body blank_name_body"
    by (simp add: wf_response_body_def blank_name_body_def)
  have e: "reachable example_store" by (rule reachable_example_store)
  have d: "deleteForm example_store ''f2'' = Inr store_without_f2" by (rule deleteForm_f2)
  have "reaches example_store store_without_f2"
    using reaches.same d by (rule reaches.deleted)
  with e [unfolded reachable_def]
  have "reaches db_open (fst (projr late_submission))"
    using w
  proof (rule reaches.submitted)
    show "submitResponse example_store store_without_f2 ''r9'' 500 500 ''f2'' blank_name_body
      = Inr (fst (projr late_submission), snd (projr late_submission))"
      using late_submission_value by (simp add: late_submission_def)
  qed
  then have r: "reachable (fst (projr late_submission))"
    by (simp add: reachable_def)
  have s: "''f2'' \<notin> set (map f_id (forms store_without_f2))"
    "''f2'' \<notin> set (map f_id (forms (fst (projr late_submission))))"
    "r_id (last (responses (fst (projr late_submission)))) = ''r9''"
    "r_form_id (last (responses (fst (projr late_submission)))) = ''f2''"
    by (simp_all add: late_submission_value store_without_f2_def example_store_def
        del: stringify.simps)
  show ?thesis
    using e d r s
    by (simp add: l) (simp add: blank_name_submission_value late_submission_value)
qed

text \<open>
  The claim as it is written says that the answer is the updated form.  The form read back
  after this update has its \<open>createdAt\<close>; the answer of \<open>updateForm\<close> has none.
\<close>

theorem updateForm_returns_form_counterexample:
  "reachable example_store
   \<and> \<not> isl retitled_form
   \<and> \<not> isl (getForm (fst (projr retitled_form)) ''f1'')
   \<and> fm_title (projr (getForm (fst (projr retitled_form)) ''f1'')) = ''Members 2027''
   \<and> fm_createdAt (projr (getForm (fst (projr retitled_form)) ''f1'')) = Some 100
   \<and> fm_createdAt (snd (projr retitled_form)) = None
   \<and> snd (projr retitled_form) \<noteq> projr (getForm (fst (projr retitled_form)) ''f1'')"
proof -
  have g: "getForm (fst (projr retitled_form)) ''f1'' =
     Inr \<lparr>fm_id = ''f1'', fm_title = ''Members 2027'', fm_description = [],
          fm_fields = example_fields, fm_created_at = Some 100, fm_createdAt = Some 100\<rparr>"
    by (simp add: retitled_form_value getForm_def select_form_def form_of_row_def
        parse_example_fields del: stringify.simps)
  show ?thesis
    by (simp add: g reachable_example_store) (simp add: retitled_form_value)
qed

text \<open>
  The claim as it is written takes the exact quotient.  With twenty forms and three
  responses the quotient is \<open>0.15\<close>, which rounds to \<open>0.2\<close>; the double nearest to it lies
  below \<open>0.15\<close>, and the statistics say \<^verbatim>\<open>"0.1"\<close>.
\<close>

theorem computeDashboardStats_average_counterexample:
  "reachable (count_store 20 3)
   \<and> \<not> isl (computeDashboardStats example_runtime (count_store 20 3))
   \<and> totalForms (projr (computeDashboardStats example_runtime (count_store 20 3))) = 20
   \<and> totalResponses (projr (computeDashboardStats example_runtime (count_store 20 3))) = 3
   \<and> avgResponsesPerForm (projr (computeDashboardStats example_runtime (count_store 20 3))) = ''0.1''
   \<and> spec_avgResponsesPerForm 3 20 = ''0.2''
   \<and> avgResponsesPerForm (projr (computeDashboardStats example_runtime (count_store 20 3)))
       \<noteq> spec_avgResponsesPerForm 3 20"
proof -
  have k: "sorter_ok (sorter example_runtime)"
    by (simp add: example_runtime_def sorter_ok_stable_sorter)
  obtain s where s: "computeDashboardStats example_runtime (count_store 20 3) = Inr s"
    using count_store_stats [OF k] by blast
  have "totalForms s = 20" "totalResponses s = 3" "avgResponsesPerForm s = ''0.1''"
    using computeDashboardStats_Inr(1-3) [OF s]
    by (simp_all add: count_store_def toFixed1_examples)
  moreover have "reachable (count_store 20 3)"
    by (rule reachable_count_store) simp
  ultimately show ?thesis
    by (simp add: s toFixed1_examples)
qed


end
